theory Spec2Isabelle
  imports Main "HOL-Library.AList" "HOL-Library.Sublist"
begin

section \<open>Python values and the operations the handlers use\<close>

text \<open>
  The module-level variable \<open>activities\<close> of \<open>src/app.py\<close> holds whatever
  \<open>load_activities\<close> returned: the literal of \<open>_default_activities\<close> or the result
  of \<open>json.load\<close>. Both are trees of dictionaries, lists, strings, integers, booleans
  and \<open>None\<close>, every node a fresh object (no sharing), so the in-place mutations of the
  handlers are modelled as functional updates of the tree. A dictionary is an
  association list in insertion order. Floating-point numbers are not modelled.
\<close>

datatype pyval =
    PNone
  | PBool bool
  | PInt int
  | PStr string
  | PList "pyval list"
  | PDict "(string \<times> pyval) list"

datatype error =
    HTTPException nat string
  | OSError
  | TypeError
  | KeyError
  | AttributeError
  | ValueError

text \<open>\<open>s in x\<close> for a string \<open>s\<close>: key membership in a dictionary, element
  membership in a list, substring test in a string, \<open>TypeError\<close> otherwise.\<close>

fun contains :: "pyval \<Rightarrow> string \<Rightarrow> error + bool" where
  "contains (PDict kvs) s = Inr (s \<in> set (map fst kvs))"
| "contains (PList xs) s = Inr (PStr s \<in> set xs)"
| "contains (PStr t) s = Inr (sublist s t)"
| "contains PNone s = Inl TypeError"
| "contains (PBool b) s = Inl TypeError"
| "contains (PInt i) s = Inl TypeError"

text \<open>\<open>x[k]\<close> for a string \<open>k\<close>: only a dictionary can be subscripted by a string.\<close>

fun getitem :: "pyval \<Rightarrow> string \<Rightarrow> error + pyval" where
  "getitem (PDict kvs) k = (case map_of kvs k of None \<Rightarrow> Inl KeyError | Some v \<Rightarrow> Inr v)"
| "getitem (PList xs) k = Inl TypeError"
| "getitem (PStr t) k = Inl TypeError"
| "getitem PNone k = Inl TypeError"
| "getitem (PBool b) k = Inl TypeError"
| "getitem (PInt i) k = Inl TypeError"

text \<open>\<open>x.append(v)\<close> and \<open>x.remove(v)\<close>: methods of lists only.\<close>

fun append_py :: "pyval \<Rightarrow> pyval \<Rightarrow> error + pyval" where
  "append_py (PList xs) v = Inr (PList (xs @ [v]))"
| "append_py (PDict kvs) v = Inl AttributeError"
| "append_py (PStr t) v = Inl AttributeError"
| "append_py PNone v = Inl AttributeError"
| "append_py (PBool b) v = Inl AttributeError"
| "append_py (PInt i) v = Inl AttributeError"

fun remove_py :: "pyval \<Rightarrow> pyval \<Rightarrow> error + pyval" where
  "remove_py (PList xs) v = (if v \<in> set xs then Inr (PList (remove1 v xs)) else Inl ValueError)"
| "remove_py (PDict kvs) v = Inl AttributeError"
| "remove_py (PStr t) v = Inl AttributeError"
| "remove_py PNone v = Inl AttributeError"
| "remove_py (PBool b) v = Inl AttributeError"
| "remove_py (PInt i) v = Inl AttributeError"

text \<open>\<open>len(x)\<close>.\<close>

fun len :: "pyval \<Rightarrow> error + nat" where
  "len (PDict kvs) = Inr (length kvs)"
| "len (PList xs) = Inr (length xs)"
| "len (PStr t) = Inr (length t)"
| "len PNone = Inl TypeError"
| "len (PBool b) = Inl TypeError"
| "len (PInt i) = Inl TypeError"

text \<open>The tree after the object stored under key \<open>k\<close> of a dictionary has been
  mutated in place into \<open>v\<close>: the key keeps its position.\<close>

fun with_item :: "pyval \<Rightarrow> string \<Rightarrow> pyval \<Rightarrow> pyval" where
  "with_item (PDict kvs) k v = PDict (AList.update k v kvs)"
| "with_item x k v = x"

section \<open>The data directory\<close>

text \<open>
  A path is a directory and a file name. The file system maps the paths of regular
  files to their text; \<open>oplog\<close> records the calls that change it, in order.
  What the operating system and the library decide is an input, \<open>env\<close>: the random
  name parts \<open>mkstemp\<close> tries, which calls raise \<open>OSError\<close>, and how many characters
  reach the temporary file when the write is interrupted. The two functions of the
  \<open>json\<close> library are parameters too (\<open>codec\<close>).
\<close>

type_synonym path = "string \<times> string"

datatype fs_op = Mkstemp path | Write path | Replace path path | Remove path

record fs =
  files :: "path \<rightharpoonup> string"
  oplog :: "fs_op list"

record env =
  tmp_rands :: "string list"
  mkstemp_ok :: bool
  written :: "nat option"
  replace_ok :: bool
  remove_ok :: bool
  read_ok :: bool

record codec =
  dumps :: "pyval \<Rightarrow> string"
  loads :: "string \<Rightarrow> pyval option"

definition DATA_DIR :: string where
  "DATA_DIR = ''data''"

definition ACTIVITIES_FILE :: path where
  "ACTIVITIES_FILE = (DATA_DIR, ''activities.json'')"

text \<open>\<open>tempfile.mkstemp(dir, prefix, suffix)\<close>: the first candidate name that does not
  exist yet is created empty.\<close>

definition mkstemp :: "env \<Rightarrow> string \<Rightarrow> string \<Rightarrow> string \<Rightarrow> fs \<Rightarrow> error + path \<times> fs" where
  "mkstemp e dir pre suf s =
     (if \<not> mkstemp_ok e then Inl OSError
      else case find (\<lambda>r. files s (dir, pre @ r @ suf) = None) (tmp_rands e) of
             None \<Rightarrow> Inl OSError
           | Some r \<Rightarrow>
               Inr ((dir, pre @ r @ suf),
                    s\<lparr>files := (files s)((dir, pre @ r @ suf) \<mapsto> []),
                      oplog := oplog s @ [Mkstemp (dir, pre @ r @ suf)]\<rparr>))"

text \<open>\<open>with os.fdopen(fd, "w") as f: json.dump(data, f, ...)\<close>.\<close>

definition write_dump :: "codec \<Rightarrow> env \<Rightarrow> path \<Rightarrow> pyval \<Rightarrow> fs \<Rightarrow> (error + unit) \<times> fs" where
  "write_dump c e p data s =
     (case written e of
        None \<Rightarrow> (Inr (), s\<lparr>files := (files s)(p \<mapsto> dumps c data), oplog := oplog s @ [Write p]\<rparr>)
      | Some n \<Rightarrow> (Inl OSError,
                   s\<lparr>files := (files s)(p \<mapsto> take n (dumps c data)), oplog := oplog s @ [Write p]\<rparr>))"

text \<open>\<open>os.replace(src, dst)\<close>: one atomic step.\<close>

definition os_replace :: "env \<Rightarrow> path \<Rightarrow> path \<Rightarrow> fs \<Rightarrow> (error + unit) \<times> fs" where
  "os_replace e src dst s =
     (if replace_ok e \<and> files s src \<noteq> None
      then (Inr (), s\<lparr>files := (files s)(dst := files s src, src := None),
                      oplog := oplog s @ [Replace src dst]\<rparr>)
      else (Inl OSError, s))"

text \<open>The \<open>finally\<close> block of \<open>save_activities\<close>.\<close>

definition cleanup :: "env \<Rightarrow> path \<Rightarrow> fs \<Rightarrow> fs" where
  "cleanup e p s =
     (if files s p \<noteq> None
      then (if remove_ok e
            then s\<lparr>files := (files s)(p := None), oplog := oplog s @ [Remove p]\<rparr>
            else s\<lparr>oplog := oplog s @ [Remove p]\<rparr>)
      else s)"

text \<open>\<open>save_activities\<close>, with the file system after each of its steps.\<close>

definition save_run :: "codec \<Rightarrow> env \<Rightarrow> pyval \<Rightarrow> fs \<Rightarrow> (error + unit) \<times> fs list" where
  "save_run c e data s =
     (case mkstemp e DATA_DIR ''activities'' ''.tmp'' s of
        Inl err \<Rightarrow> (Inl err, [])
      | Inr (tmp_path, s1) \<Rightarrow>
          (case write_dump c e tmp_path data s1 of
             (Inl err, s2) \<Rightarrow> (Inl err, [s1, s2, cleanup e tmp_path s2])
           | (Inr u, s2) \<Rightarrow>
               (case os_replace e tmp_path ACTIVITIES_FILE s2 of
                  (r, s3) \<Rightarrow> (r, [s1, s2, s3, cleanup e tmp_path s3]))))"

definition save_activities :: "codec \<Rightarrow> env \<Rightarrow> pyval \<Rightarrow> fs \<Rightarrow> (error + unit) \<times> fs" where
  "save_activities c e data s =
     (case save_run c e data s of (r, tr) \<Rightarrow> (r, last (s # tr)))"

section \<open>The store\<close>

text \<open>\<open>_default_activities\<close>: the literal of the source, key by key.\<close>

definition default_activities :: pyval where
  "default_activities = PDict [
     (''Chess Club'',
      PDict [(''description'', PStr ''Learn strategies and compete in chess tournaments''),
             (''schedule'', PStr ''Fridays, 3:30 PM - 5:00 PM''),
             (''max_participants'', PInt 12),
             (''participants'', PList [PStr ''michael@mergington.edu'', PStr ''daniel@mergington.edu''])]),
     (''Programming Class'',
      PDict [(''description'', PStr ''Learn programming fundamentals and build software projects''),
             (''schedule'', PStr ''Tuesdays and Thursdays, 3:30 PM - 4:30 PM''),
             (''max_participants'', PInt 20),
             (''participants'', PList [PStr ''emma@mergington.edu'', PStr ''sophia@mergington.edu''])]),
     (''Gym Class'',
      PDict [(''description'', PStr ''Physical education and sports activities''),
             (''schedule'', PStr ''Mondays, Wednesdays, Fridays, 2:00 PM - 3:00 PM''),
             (''max_participants'', PInt 30),
             (''participants'', PList [PStr ''john@mergington.edu'', PStr ''olivia@mergington.edu''])]),
     (''Soccer Team'',
      PDict [(''description'', PStr ''Join the school soccer team and compete in matches''),
             (''schedule'', PStr ''Tuesdays and Thursdays, 4:00 PM - 5:30 PM''),
             (''max_participants'', PInt 22),
             (''participants'', PList [PStr ''liam@mergington.edu'', PStr ''noah@mergington.edu''])]),
     (''Basketball Team'',
      PDict [(''description'', PStr ''Practice and play basketball with the school team''),
             (''schedule'', PStr ''Wednesdays and Fridays, 3:30 PM - 5:00 PM''),
             (''max_participants'', PInt 15),
             (''participants'', PList [PStr ''ava@mergington.edu'', PStr ''mia@mergington.edu''])]),
     (''Art Club'',
      PDict [(''description'', PStr ''Explore your creativity through painting and drawing''),
             (''schedule'', PStr ''Thursdays, 3:30 PM - 5:00 PM''),
             (''max_participants'', PInt 15),
             (''participants'', PList [PStr ''amelia@mergington.edu'', PStr ''harper@mergington.edu''])]),
     (''Drama Club'',
      PDict [(''description'', PStr ''Act, direct, and produce plays and performances''),
             (''schedule'', PStr ''Mondays and Wednesdays, 4:00 PM - 5:30 PM''),
             (''max_participants'', PInt 20),
             (''participants'', PList [PStr ''ella@mergington.edu'', PStr ''scarlett@mergington.edu''])]),
     (''Math Club'',
      PDict [(''description'', PStr ''Solve challenging problems and participate in math competitions''),
             (''schedule'', PStr ''Tuesdays, 3:30 PM - 4:30 PM''),
             (''max_participants'', PInt 10),
             (''participants'', PList [PStr ''james@mergington.edu'', PStr ''benjamin@mergington.edu''])]),
     (''Debate Team'',
      PDict [(''description'', PStr ''Develop public speaking and argumentation skills''),
             (''schedule'', PStr ''Fridays, 4:00 PM - 5:30 PM''),
             (''max_participants'', PInt 12),
             (''participants'', PList [PStr ''charlotte@mergington.edu'', PStr ''henry@mergington.edu''])])]"

text \<open>The two identical fallback blocks of \<open>load_activities\<close>: build the defaults,
  save them, return them. An exception of \<open>save_activities\<close> is not caught.\<close>

definition regenerate :: "codec \<Rightarrow> env \<Rightarrow> fs \<Rightarrow> (error + pyval) \<times> fs" where
  "regenerate c e s =
     (case save_activities c e default_activities s of
        (Inl err, s') \<Rightarrow> (Inl err, s')
      | (Inr u, s') \<Rightarrow> (Inr default_activities, s'))"

text \<open>\<open>load_activities\<close>. Opening, decoding and parsing happen inside the \<open>try\<close>:
  whichever of them raises, the \<open>except Exception\<close> branch runs. What
  \<open>json.load\<close> returns is returned as it is.\<close>

definition load_activities :: "codec \<Rightarrow> env \<Rightarrow> fs \<Rightarrow> (error + pyval) \<times> fs" where
  "load_activities c e s =
     (case files s ACTIVITIES_FILE of
        None \<Rightarrow> regenerate c e s
      | Some txt \<Rightarrow>
          (case (if read_ok e then loads c txt else None) of
             Some v \<Rightarrow> (Inr v, s)
           | None \<Rightarrow> regenerate c e s))"

text \<open>The process state: the global \<open>activities\<close> and the data directory.\<close>

record state =
  activities :: pyval
  disk :: fs

definition get_activities :: "state \<Rightarrow> pyval" where
  "get_activities st = activities st"

text \<open>\<open>signup_for_activity\<close>. The list is extended in memory before
  \<open>save_activities\<close> runs, so the extension stays when saving raises.\<close>

definition signup_for_activity ::
  "codec \<Rightarrow> env \<Rightarrow> string \<Rightarrow> string \<Rightarrow> state \<Rightarrow> (error + pyval) \<times> state" where
  "signup_for_activity c e activity_name email st =
     (case contains (activities st) activity_name of
        Inl err \<Rightarrow> (Inl err, st)
      | Inr known \<Rightarrow>
          if \<not> known then (Inl (HTTPException 404 ''Activity not found''), st)
          else
            (case getitem (activities st) activity_name of
               Inl err \<Rightarrow> (Inl err, st)
             | Inr activity \<Rightarrow>
                 (case getitem activity ''participants'' of
                    Inl err \<Rightarrow> (Inl err, st)
                  | Inr ps \<Rightarrow>
                      (case contains ps email of
                         Inl err \<Rightarrow> (Inl err, st)
                       | Inr signed \<Rightarrow>
                           if signed
                           then (Inl (HTTPException 400 ''Student is already signed up''), st)
                           else
                             (case append_py ps (PStr email) of
                                Inl err \<Rightarrow> (Inl err, st)
                              | Inr ps' \<Rightarrow>
                                  (let acts = with_item (activities st) activity_name
                                                (with_item activity ''participants'' ps')
                                   in case save_activities c e acts (disk st) of
                                        (Inl err, d) \<Rightarrow>
                                          (Inl err, \<lparr>activities = acts, disk = d\<rparr>)
                                      | (Inr u, d) \<Rightarrow>
                                          (Inr (PDict [(''message'',
                                                  PStr (''Signed up '' @ email @ '' for '' @ activity_name))]),
                                           \<lparr>activities = acts, disk = d\<rparr>)))))))"

text \<open>\<open>unregister_from_activity\<close>.\<close>

definition unregister_from_activity ::
  "codec \<Rightarrow> env \<Rightarrow> string \<Rightarrow> string \<Rightarrow> state \<Rightarrow> (error + pyval) \<times> state" where
  "unregister_from_activity c e activity_name email st =
     (case contains (activities st) activity_name of
        Inl err \<Rightarrow> (Inl err, st)
      | Inr known \<Rightarrow>
          if \<not> known then (Inl (HTTPException 404 ''Activity not found''), st)
          else
            (case getitem (activities st) activity_name of
               Inl err \<Rightarrow> (Inl err, st)
             | Inr activity \<Rightarrow>
                 (case getitem activity ''participants'' of
                    Inl err \<Rightarrow> (Inl err, st)
                  | Inr ps \<Rightarrow>
                      (case contains ps email of
                         Inl err \<Rightarrow> (Inl err, st)
                       | Inr signed \<Rightarrow>
                           if \<not> signed
                           then (Inl (HTTPException 400 ''Student is not signed up for this activity''), st)
                           else
                             (case remove_py ps (PStr email) of
                                Inl err \<Rightarrow> (Inl err, st)
                              | Inr ps' \<Rightarrow>
                                  (let acts = with_item (activities st) activity_name
                                                (with_item activity ''participants'' ps')
                                   in case save_activities c e acts (disk st) of
                                        (Inl err, d) \<Rightarrow>
                                          (Inl err, \<lparr>activities = acts, disk = d\<rparr>)
                                      | (Inr u, d) \<Rightarrow>
                                          (Inr (PDict [(''message'',
                                                  PStr (''Unregistered '' @ email @ '' from '' @ activity_name))]),
                                           \<lparr>activities = acts, disk = d\<rparr>)))))))"

text \<open>\<open>reload_activities\<close>: the global is assigned only when \<open>load_activities\<close>
  returns.\<close>

definition reload_activities :: "codec \<Rightarrow> env \<Rightarrow> state \<Rightarrow> (error + pyval) \<times> state" where
  "reload_activities c e st =
     (case load_activities c e (disk st) of
        (Inl err, d) \<Rightarrow> (Inl err, st\<lparr>disk := d\<rparr>)
      | (Inr v, d) \<Rightarrow>
          (case len v of
             Inl err \<Rightarrow> (Inl err, \<lparr>activities = v, disk = d\<rparr>)
           | Inr n \<Rightarrow>
               (Inr (PDict [(''message'', PStr ''Activities reloaded''), (''count'', PInt (int n))]),
                \<lparr>activities = v, disk = d\<rparr>)))"

section \<open>The \<open>json\<close> library\<close>

text \<open>\<open>json.dump(data, f, indent=2, ensure_ascii=False)\<close>: the quotation mark, the
  backslash and the control characters are escaped, everything else is written as it
  is; a non-empty list or dictionary puts each item on a line of its own, indented
  by two spaces a level, with \<open>,\<close> between items and \<open>: \<close> after a key.
  A string is a list of 8-bit characters here, so the data on which the library
  raises while encoding (a lone surrogate) is outside the type, and the library's
  limit on the digits of an integer is not modelled: where the real call raises,
  \<open>save_activities\<close> does not return.\<close>

definition hex_digit :: "nat \<Rightarrow> char" where
  "hex_digit n = ''0123456789abcdef'' ! n"

definition escape_char :: "char \<Rightarrow> string" where
  "escape_char ch =
     (if ch = CHR 0x22 then [CHR 0x5C, CHR 0x22]
      else if ch = CHR 0x5C then [CHR 0x5C, CHR 0x5C]
      else if ch = CHR 0x0A then [CHR 0x5C, CHR ''n'']
      else if ch = CHR 0x0D then [CHR 0x5C, CHR ''r'']
      else if ch = CHR 0x09 then [CHR 0x5C, CHR ''t'']
      else if ch = CHR 0x08 then [CHR 0x5C, CHR ''b'']
      else if ch = CHR 0x0C then [CHR 0x5C, CHR ''f'']
      else if (of_char ch :: nat) < 32
      then [CHR 0x5C, CHR ''u'', CHR ''0'', CHR ''0'', hex_digit (of_char ch div 16), hex_digit (of_char ch mod 16)]
      else [ch])"

definition dump_str :: "string \<Rightarrow> string" where
  "dump_str t = CHR 0x22 # concat (map escape_char t) @ [CHR 0x22]"

fun digits :: "nat \<Rightarrow> string" where
  "digits n = (if n < 10 then [char_of (48 + n)] else digits (n div 10) @ [char_of (48 + n mod 10)])"

declare digits.simps [simp del]

definition dump_int :: "int \<Rightarrow> string" where
  "dump_int i = (if i < 0 then CHR ''-'' # digits (nat (- i)) else digits (nat i))"

definition newline_indent :: "nat \<Rightarrow> string" where
  "newline_indent lvl = CHR 0x0A # replicate (2 * lvl) CHR '' ''"

fun dump_val :: "nat \<Rightarrow> pyval \<Rightarrow> string"
  and dump_items :: "nat \<Rightarrow> pyval list \<Rightarrow> string"
  and dump_pairs :: "nat \<Rightarrow> (string \<times> pyval) list \<Rightarrow> string" where
  "dump_val lvl PNone = ''null''"
| "dump_val lvl (PBool b) = (if b then ''true'' else ''false'')"
| "dump_val lvl (PInt i) = dump_int i"
| "dump_val lvl (PStr t) = dump_str t"
| "dump_val lvl (PList xs) =
     (if xs = [] then ''[]'' else ''['' @ dump_items (Suc lvl) xs @ newline_indent lvl @ '']'')"
| "dump_val lvl (PDict kvs) =
     (if kvs = [] then ''{}'' else ''{'' @ dump_pairs (Suc lvl) kvs @ newline_indent lvl @ ''}'')"
| "dump_items lvl [] = []"
| "dump_items lvl (x # xs) =
     newline_indent lvl @ dump_val lvl x @ (if xs = [] then [] else '','') @ dump_items lvl xs"
| "dump_pairs lvl [] = []"
| "dump_pairs lvl (kv # kvs) =
     newline_indent lvl @ dump_str (fst kv) @ '': '' @ dump_val lvl (snd kv) @
     (if kvs = [] then [] else '','') @ dump_pairs lvl kvs"


text \<open>\<open>json.load\<close>: white space is skipped around every token; a string may not
  hold a raw control character; a number is an optional minus sign and digits with no
  leading zero; of a repeated key the last value is kept, at the place of the first.
  A number with a fraction or an exponent, \<open>NaN\<close>, \<open>Infinity\<close> and a
  four-digit escape above 255 are outside the value type and rejected here. The
  nesting depth is bounded by the recursion budget, here the length of the text;
  the library's own bounds (its recursion limit, its limit on the digits of an
  integer) are not modelled. What is proved about this parser is proved of the texts
  the serialiser above writes; everything else is stated for any \<open>codec\<close>.\<close>

definition is_ws :: "char \<Rightarrow> bool" where
  "is_ws ch = (ch = CHR '' '' \<or> ch = CHR 0x09 \<or> ch = CHR 0x0A \<or> ch = CHR 0x0D)"

definition skip_ws :: "string \<Rightarrow> string" where
  "skip_ws s = dropWhile is_ws s"

definition hex_val :: "char \<Rightarrow> nat option" where
  "hex_val ch =
     (let n = (of_char ch :: nat) in
      if 48 \<le> n \<and> n \<le> 57 then Some (n - 48)
      else if 97 \<le> n \<and> n \<le> 102 then Some (n - 87)
      else if 65 \<le> n \<and> n \<le> 70 then Some (n - 55)
      else None)"

definition hex4 :: "string \<Rightarrow> nat option" where
  "hex4 s =
     (case map hex_val s of
        [Some a, Some b, Some c, Some d] \<Rightarrow> Some (((a * 16 + b) * 16 + c) * 16 + d)
      | _ \<Rightarrow> None)"

definition unescape :: "char \<Rightarrow> char option" where
  "unescape ch =
     (if ch = CHR 0x22 then Some (CHR 0x22)
      else if ch = CHR 0x5C then Some (CHR 0x5C)
      else if ch = CHR ''/'' then Some (CHR ''/'')
      else if ch = CHR ''b'' then Some (CHR 0x08)
      else if ch = CHR ''f'' then Some (CHR 0x0C)
      else if ch = CHR ''n'' then Some (CHR 0x0A)
      else if ch = CHR ''r'' then Some (CHR 0x0D)
      else if ch = CHR ''t'' then Some (CHR 0x09)
      else None)"

fun parse_str :: "string \<Rightarrow> (string \<times> string) option" where
  "parse_str [] = None"
| "parse_str (ch # r) =
     (if ch = CHR 0x22 then Some ([], r)
      else if ch = CHR 0x5C then
        (case r of
           [] \<Rightarrow> None
         | x # r' \<Rightarrow>
             if x = CHR ''u'' then
               (case hex4 (take 4 r') of
                  None \<Rightarrow> None
                | Some n \<Rightarrow>
                    if 256 \<le> n then None
                    else map_option (\<lambda>tr. (char_of n # fst tr, snd tr)) (parse_str (drop 4 r')))
             else
               (case unescape x of
                  None \<Rightarrow> None
                | Some y \<Rightarrow> map_option (\<lambda>tr. (y # fst tr, snd tr)) (parse_str r')))
      else if (of_char ch :: nat) < 32 then None
      else map_option (\<lambda>tr. (ch # fst tr, snd tr)) (parse_str r))"

definition is_digit :: "char \<Rightarrow> bool" where
  "is_digit ch = (48 \<le> (of_char ch :: nat) \<and> (of_char ch :: nat) \<le> 57)"

definition nat_of_digits :: "string \<Rightarrow> nat" where
  "nat_of_digits ds = foldl (\<lambda>acc ch. 10 * acc + (of_char ch - 48)) 0 ds"

definition parse_int :: "string \<Rightarrow> (pyval \<times> string) option" where
  "parse_int s =
     (let neg = (s \<noteq> [] \<and> hd s = CHR ''-'');
          body = (if neg then tl s else s);
          ds = takeWhile is_digit body;
          rest = dropWhile is_digit body
      in if ds = [] then None
         else if hd ds = CHR ''0'' \<and> 1 < length ds then None
         else if rest \<noteq> [] \<and> (hd rest = CHR ''.'' \<or> hd rest = CHR ''e'' \<or> hd rest = CHR ''E'') then None
         else Some (PInt (if neg then - int (nat_of_digits ds) else int (nat_of_digits ds)), rest))"

definition literal :: "string \<Rightarrow> pyval \<Rightarrow> string \<Rightarrow> (pyval \<times> string) option" where
  "literal w v s = (if take (length w) s = w then Some (v, drop (length w) s) else None)"

definition dict_of :: "(string \<times> pyval) list \<Rightarrow> (string \<times> pyval) list" where
  "dict_of ps = fold (\<lambda>kv d. AList.update (fst kv) (snd kv) d) ps []"

fun parse_value :: "nat \<Rightarrow> string \<Rightarrow> (pyval \<times> string) option"
  and parse_elems :: "nat \<Rightarrow> string \<Rightarrow> (pyval list \<times> string) option"
  and parse_members :: "nat \<Rightarrow> string \<Rightarrow> ((string \<times> pyval) list \<times> string) option" where
  "parse_value 0 s = None"
| "parse_value (Suc n) s =
     (case s of
        [] \<Rightarrow> None
      | ch # r \<Rightarrow>
          if ch = CHR 0x22 then map_option (\<lambda>tr. (PStr (fst tr), snd tr)) (parse_str r)
          else if ch = CHR ''{'' then
            (case skip_ws r of
               [] \<Rightarrow> None
             | d # r' \<Rightarrow>
                 if d = CHR ''}'' then Some (PDict [], r')
                 else map_option (\<lambda>pr. (PDict (dict_of (fst pr)), snd pr)) (parse_members n (d # r')))
          else if ch = CHR ''['' then
            (case skip_ws r of
               [] \<Rightarrow> None
             | d # r' \<Rightarrow>
                 if d = CHR '']'' then Some (PList [], r')
                 else map_option (\<lambda>xr. (PList (fst xr), snd xr)) (parse_elems n (d # r')))
          else if ch = CHR ''n'' then literal ''null'' PNone s
          else if ch = CHR ''t'' then literal ''true'' (PBool True) s
          else if ch = CHR ''f'' then literal ''false'' (PBool False) s
          else parse_int s)"
| "parse_elems 0 s = None"
| "parse_elems (Suc n) s =
     (case parse_value n s of
        None \<Rightarrow> None
      | Some (v, r) \<Rightarrow>
          (case skip_ws r of
             [] \<Rightarrow> None
           | d # r' \<Rightarrow>
               if d = CHR '']'' then Some ([v], r')
               else if d = CHR '','' then map_option (\<lambda>xr. (v # fst xr, snd xr)) (parse_elems n (skip_ws r'))
               else None))"
| "parse_members 0 s = None"
| "parse_members (Suc n) s =
     (case s of
        [] \<Rightarrow> None
      | q # r0 \<Rightarrow>
          if q \<noteq> CHR 0x22 then None
          else
            (case parse_str r0 of
               None \<Rightarrow> None
             | Some (k, r1) \<Rightarrow>
                 (case skip_ws r1 of
                    [] \<Rightarrow> None
                  | col # r2 \<Rightarrow>
                      if col \<noteq> CHR '':'' then None
                      else
                        (case parse_value n (skip_ws r2) of
                           None \<Rightarrow> None
                         | Some (v, r3) \<Rightarrow>
                             (case skip_ws r3 of
                                [] \<Rightarrow> None
                              | d # r4 \<Rightarrow>
                                  if d = CHR ''}'' then Some ([(k, v)], r4)
                                  else if d = CHR '','' then
                                    map_option (\<lambda>pr. ((k, v) # fst pr, snd pr)) (parse_members n (skip_ws r4))
                                  else None)))))"

definition json_dumps :: "pyval \<Rightarrow> string" where
  "json_dumps v = dump_val 0 v"

definition json_loads :: "string \<Rightarrow> pyval option" where
  "json_loads s =
     (case parse_value (Suc (length s)) (skip_ws s) of
        None \<Rightarrow> None
      | Some (v, r) \<Rightarrow> if skip_ws r = [] then Some v else None)"

definition json :: codec where
  "json = \<lparr>dumps = json_dumps, loads = json_loads\<rparr>"

text \<open>A text that ends a number when it follows its digits: it does not go on with a
  digit, a fraction or an exponent.\<close>

definition number_end :: "string \<Rightarrow> bool" where
  "number_end s =
     (case s of
        [] \<Rightarrow> True
      | ch # r \<Rightarrow> \<not> is_digit ch \<and> ch \<noteq> CHR ''.'' \<and> ch \<noteq> CHR ''e'' \<and> ch \<noteq> CHR ''E'')"

section \<open>The shape of a store\<close>

text \<open>
  The data model: a store is a dictionary (its keys are distinct) of activity records,
  and an activity record has the keys \<open>description\<close> and \<open>schedule\<close> (strings),
  \<open>max_participants\<close> (an integer) and \<open>participants\<close> (a list of strings), in any
  order.
\<close>

definition is_str :: "pyval \<Rightarrow> bool" where
  "is_str v = (case v of PStr t \<Rightarrow> True | _ \<Rightarrow> False)"

definition is_int :: "pyval \<Rightarrow> bool" where
  "is_int v = (case v of PInt i \<Rightarrow> True | _ \<Rightarrow> False)"

definition is_str_list :: "pyval \<Rightarrow> bool" where
  "is_str_list v = (case v of PList xs \<Rightarrow> list_all is_str xs | _ \<Rightarrow> False)"

definition has_field :: "(pyval \<Rightarrow> bool) \<Rightarrow> (string \<times> pyval) list \<Rightarrow> string \<Rightarrow> bool" where
  "has_field ty kvs k = (case map_of kvs k of None \<Rightarrow> False | Some v \<Rightarrow> ty v)"

definition is_activity :: "pyval \<Rightarrow> bool" where
  "is_activity a =
     (case a of
        PDict kvs \<Rightarrow>
          distinct (map fst kvs) \<and> length kvs = 4 \<and>
          has_field is_str kvs ''description'' \<and>
          has_field is_str kvs ''schedule'' \<and>
          has_field is_int kvs ''max_participants'' \<and>
          has_field is_str_list kvs ''participants''
      | _ \<Rightarrow> False)"

definition is_store :: "pyval \<Rightarrow> bool" where
  "is_store v =
     (case v of
        PDict kvs \<Rightarrow> distinct (map fst kvs) \<and> list_all (\<lambda>kv. is_activity (snd kv)) kvs
      | _ \<Rightarrow> False)"

text \<open>Reading a store: its keys, and the fields of the activity under a key.\<close>

definition keys :: "pyval \<Rightarrow> string list" where
  "keys v = (case v of PDict kvs \<Rightarrow> map fst kvs | _ \<Rightarrow> [])"

definition field_of :: "pyval \<Rightarrow> string \<Rightarrow> string \<Rightarrow> pyval option" where
  "field_of v name k =
     (case getitem v name of
        Inl err \<Rightarrow> None
      | Inr a \<Rightarrow> (case getitem a k of Inl err \<Rightarrow> None | Inr x \<Rightarrow> Some x))"

definition participants_of :: "pyval \<Rightarrow> string \<Rightarrow> pyval list option" where
  "participants_of v name =
     (case field_of v name ''participants'' of Some (PList xs) \<Rightarrow> Some xs | _ \<Rightarrow> None)"

text \<open>The environment in which \<open>save_activities\<close> runs to its end: a temporary name
  is free, and neither creating, writing nor replacing raises.\<close>

definition save_ok :: "env \<Rightarrow> fs \<Rightarrow> bool" where
  "save_ok e s =
     (mkstemp_ok e \<and>
      find (\<lambda>r. files s (DATA_DIR, ''activities'' @ r @ ''.tmp'') = None) (tmp_rands e) \<noteq> None \<and>
      written e = None \<and> replace_ok e)"

text \<open>The participants of the activity under a key, as a list (empty where there is
  none), and the stores in which no list names an email twice.\<close>

definition roster :: "pyval \<Rightarrow> string \<Rightarrow> pyval list" where
  "roster v name = (case participants_of v name of None \<Rightarrow> [] | Some xs \<Rightarrow> xs)"

definition no_dups :: "pyval \<Rightarrow> bool" where
  "no_dups v = list_all (\<lambda>name. distinct (roster v name)) (keys v)"

text \<open>Every dictionary of a value has distinct keys.\<close>

fun wf_py :: "pyval \<Rightarrow> bool"
  and wf_items :: "pyval list \<Rightarrow> bool"
  and wf_pairs :: "(string \<times> pyval) list \<Rightarrow> bool" where
  "wf_py (PList xs) = wf_items xs"
| "wf_py (PDict kvs) = (distinct (map fst kvs) \<and> wf_pairs kvs)"
| "wf_py PNone = True"
| "wf_py (PBool b) = True"
| "wf_py (PInt i) = True"
| "wf_py (PStr t) = True"
| "wf_items [] = True"
| "wf_items (x # xs) = (wf_py x \<and> wf_items xs)"
| "wf_pairs [] = True"
| "wf_pairs (kv # kvs) = (wf_py (snd kv) \<and> wf_pairs kvs)"

section \<open>Sample data\<close>

text \<open>An environment in which nothing fails, an empty data directory, and a small
  store whose first activity is full.\<close>

definition calm :: env where
  "calm = \<lparr>tmp_rands = [''k3x9_q2a''], mkstemp_ok = True, written = None,
           replace_ok = True, remove_ok = True, read_ok = True\<rparr>"

definition no_files :: "path \<rightharpoonup> string" where
  "no_files = Map.empty"

definition new_disk :: fs where
  "new_disk = \<lparr>files = no_files, oplog = []\<rparr>"

definition two_clubs :: pyval where
  "two_clubs = PDict [
     (''Chess Club'',
      PDict [(''description'', PStr ''Learn strategies and compete in chess tournaments''),
             (''schedule'', PStr ''Fridays, 3:30 PM - 5:00 PM''),
             (''max_participants'', PInt 2),
             (''participants'', PList [PStr ''michael@mergington.edu'', PStr ''daniel@mergington.edu''])]),
     (''Art Club'',
      PDict [(''description'', PStr ''Explore your creativity through painting and drawing''),
             (''schedule'', PStr ''Thursdays, 3:30 PM - 5:00 PM''),
             (''max_participants'', PInt 15),
             (''participants'', PList [PStr ''amelia@mergington.edu''])])]"

section \<open>Saving\<close>

text \<open>What \<open>mkstemp\<close> returns is a new file of the data directory, never the
  canonical file.\<close>

lemma mkstemp_fresh: "mkstemp e d pre suf s = Inr (p, s1) \<Longrightarrow> files s p = None \<and> fst p = d \<and> s1 = s\<lparr>files := (files s)(p \<mapsto> []), oplog := oplog s @ [Mkstemp p]\<rparr>"
  by (auto simp: mkstemp_def  split: if_splits option.splits dest: find_Some_iff[THEN iffD1])

lemma mkstemp_not_canonical:
  "mkstemp e DATA_DIR ''activities'' ''.tmp'' s = Inr (p, s1) \<Longrightarrow> p \<noteq> ACTIVITIES_FILE"
  by (auto simp: mkstemp_def ACTIVITIES_FILE_def split: if_splits option.splits)

text \<open>\<open>save_activities\<close> raises nothing but \<open>OSError\<close>, and returns exactly when
  the environment lets every step through.\<close>

lemma save_err: "fst (save_activities c e d s) = Inl err \<Longrightarrow> err = OSError"
  by (auto simp: save_activities_def save_run_def save_ok_def mkstemp_def write_dump_def os_replace_def cleanup_def
      split: sum.splits prod.splits option.splits if_splits)

lemma save_ok_iff: "fst (save_activities c e d s) = Inr () \<longleftrightarrow> save_ok e s"
  by (auto simp: save_activities_def save_run_def save_ok_def mkstemp_def write_dump_def os_replace_def cleanup_def
      split: sum.splits prod.splits option.splits if_splits)

lemma save_cases:
  "save_activities c e d s = (if save_ok e s then Inr () else Inl OSError, snd (save_activities c e d s))"
proof (cases "fst (save_activities c e d s)")
  case (Inl err)
  then have "err = OSError" by (rule save_err)
  with Inl have "fst (save_activities c e d s) = Inl OSError" by simp
  moreover from Inl have "\<not> save_ok e s" using save_ok_iff[of c e d s] by simp
  ultimately show ?thesis by (simp add: prod_eq_iff)
next
  case (Inr u)
  then have "save_ok e s" using save_ok_iff[of c e d s] by simp
  with Inr show ?thesis by (simp add: prod_eq_iff)
qed

lemma save_ok_mkstemp: "save_ok e s \<Longrightarrow> \<exists>p s1. mkstemp e DATA_DIR ''activities'' ''.tmp'' s = Inr (p, s1)"
  by (auto simp: save_ok_def mkstemp_def split: option.splits)

text \<open>When it returns, the canonical file holds the serialised data, the temporary
  file is gone and nothing else has changed.\<close>

lemma save_ok_result:
  assumes "save_ok e s"
  shows "\<exists>tmp. tmp \<noteq> ACTIVITIES_FILE \<and> fst tmp = DATA_DIR \<and> files s tmp = None \<and> save_activities c e d s =
           (Inr (), s\<lparr>files := (files s)(ACTIVITIES_FILE \<mapsto> dumps c d),
                      oplog := oplog s @ [Mkstemp tmp, Write tmp, Replace tmp ACTIVITIES_FILE]\<rparr>)"
proof -
  from assms obtain p s1 where mk: "mkstemp e DATA_DIR ''activities'' ''.tmp'' s = Inr (p, s1)"
    using save_ok_mkstemp by blast
  from mkstemp_fresh[OF mk] have fresh: "files s p = None" and dir: "fst p = DATA_DIR"
    and s1: "s1 = s\<lparr>files := (files s)(p \<mapsto> []), oplog := oplog s @ [Mkstemp p]\<rparr>" by auto
  from mkstemp_not_canonical[OF mk] have ne: "p \<noteq> ACTIVITIES_FILE" .
  from assms have w: "written e = None" and r: "replace_ok e" by (auto simp: save_ok_def)
  have fe: "(files s)(p \<mapsto> dumps c d, ACTIVITIES_FILE \<mapsto> dumps c d, p := None) = (files s)(ACTIVITIES_FILE \<mapsto> dumps c d)"
    using fresh ne by (auto simp: fun_eq_iff)
  have "save_activities c e d s =
           (Inr (), s\<lparr>files := (files s)(ACTIVITIES_FILE \<mapsto> dumps c d),
                      oplog := oplog s @ [Mkstemp p, Write p, Replace p ACTIVITIES_FILE]\<rparr>)"
    using ne fe by (simp add: save_activities_def save_run_def mk s1 w r write_dump_def os_replace_def cleanup_def)
  with ne dir fresh show ?thesis by blast
qed

lemma save_ok_files:
  "save_ok e s \<Longrightarrow> files (snd (save_activities c e d s)) = (files s)(ACTIVITIES_FILE \<mapsto> dumps c d)"
  using save_ok_result[of e s c d] by auto

lemma map_of_key: "map_of kvs A = Some v \<Longrightarrow> A \<in> set (map fst kvs)"
  by (metis map_of_eq_None_iff option.distinct(1) set_map)


section \<open>The handlers on an activity whose participants are a list\<close>

lemma signup_unknown:
  "activities st = PDict kvs \<Longrightarrow> A \<notin> set (map fst kvs) \<Longrightarrow>
   signup_for_activity c e A E st = (Inl (HTTPException 404 ''Activity not found''), st)"
  by (simp add: signup_for_activity_def)

lemma signup_known:
  assumes st: "activities st = PDict kvs" and a: "map_of kvs A = Some (PDict flds)"
    and p: "map_of flds ''participants'' = Some (PList ps)"
    and acts: "acts = PDict (AList.update A (PDict (AList.update ''participants'' (PList (ps @ [PStr E])) flds)) kvs)"
  shows "signup_for_activity c e A E st =
     (if PStr E \<in> set ps then (Inl (HTTPException 400 ''Student is already signed up''), st)
      else (if save_ok e (disk st)
            then Inr (PDict [(''message'', PStr (''Signed up '' @ E @ '' for '' @ A))])
            else Inl OSError,
            \<lparr>activities = acts, disk = snd (save_activities c e acts (disk st))\<rparr>))"
  unfolding acts
proof -
  let ?acts = "PDict (AList.update A (PDict (AList.update ''participants'' (PList (ps @ [PStr E])) flds)) kvs)"
  let ?msg = "PDict [(''message'', PStr (''Signed up '' @ E @ '' for '' @ A))]"
  have k: "A \<in> fst ` set kvs" using map_of_key[OF a] by simp
  have "signup_for_activity c e A E st =
      (if PStr E \<in> set ps then (Inl (HTTPException 400 ''Student is already signed up''), st)
       else (case save_activities c e ?acts (disk st) of
           (Inl err, d) \<Rightarrow> (Inl err, \<lparr>activities = ?acts, disk = d\<rparr>)
         | (Inr u, d) \<Rightarrow> (Inr ?msg, \<lparr>activities = ?acts, disk = d\<rparr>)))"
    by (simp add: signup_for_activity_def st k a p Let_def)
  also have "(case save_activities c e ?acts (disk st) of
           (Inl err, d) \<Rightarrow> (Inl err, \<lparr>activities = ?acts, disk = d\<rparr>)
         | (Inr u, d) \<Rightarrow> (Inr ?msg, \<lparr>activities = ?acts, disk = d\<rparr>)) =
      (if save_ok e (disk st) then Inr ?msg else Inl OSError,
            \<lparr>activities = ?acts, disk = snd (save_activities c e ?acts (disk st))\<rparr>)"
    by (subst save_cases) simp
  finally show "signup_for_activity c e A E st =
     (if PStr E \<in> set ps then (Inl (HTTPException 400 ''Student is already signed up''), st)
      else (if save_ok e (disk st) then Inr ?msg else Inl OSError,
            \<lparr>activities = ?acts, disk = snd (save_activities c e ?acts (disk st))\<rparr>))" .
qed

lemma unregister_unknown:
  "activities st = PDict kvs \<Longrightarrow> A \<notin> set (map fst kvs) \<Longrightarrow>
   unregister_from_activity c e A E st = (Inl (HTTPException 404 ''Activity not found''), st)"
  by (simp add: unregister_from_activity_def)

lemma unregister_known:
  assumes st: "activities st = PDict kvs" and a: "map_of kvs A = Some (PDict flds)"
    and p: "map_of flds ''participants'' = Some (PList ps)"
    and acts: "acts = PDict (AList.update A (PDict (AList.update ''participants'' (PList (remove1 (PStr E) ps)) flds)) kvs)"
  shows "unregister_from_activity c e A E st =
     (if PStr E \<notin> set ps then (Inl (HTTPException 400 ''Student is not signed up for this activity''), st)
      else (if save_ok e (disk st)
            then Inr (PDict [(''message'', PStr (''Unregistered '' @ E @ '' from '' @ A))])
            else Inl OSError,
            \<lparr>activities = acts, disk = snd (save_activities c e acts (disk st))\<rparr>))"
  unfolding acts
proof -
  let ?acts = "PDict (AList.update A (PDict (AList.update ''participants'' (PList (remove1 (PStr E) ps)) flds)) kvs)"
  let ?msg = "PDict [(''message'', PStr (''Unregistered '' @ E @ '' from '' @ A))]"
  have k: "A \<in> fst ` set kvs" using map_of_key[OF a] by simp
  have "unregister_from_activity c e A E st =
      (if PStr E \<notin> set ps then (Inl (HTTPException 400 ''Student is not signed up for this activity''), st)
       else (case save_activities c e ?acts (disk st) of
           (Inl err, d) \<Rightarrow> (Inl err, \<lparr>activities = ?acts, disk = d\<rparr>)
         | (Inr u, d) \<Rightarrow> (Inr ?msg, \<lparr>activities = ?acts, disk = d\<rparr>)))"
    by (simp add: unregister_from_activity_def st k a p Let_def)
  also have "(case save_activities c e ?acts (disk st) of
           (Inl err, d) \<Rightarrow> (Inl err, \<lparr>activities = ?acts, disk = d\<rparr>)
         | (Inr u, d) \<Rightarrow> (Inr ?msg, \<lparr>activities = ?acts, disk = d\<rparr>)) =
      (if save_ok e (disk st) then Inr ?msg else Inl OSError,
            \<lparr>activities = ?acts, disk = snd (save_activities c e ?acts (disk st))\<rparr>)"
    by (subst save_cases) simp
  finally show "unregister_from_activity c e A E st =
     (if PStr E \<notin> set ps then (Inl (HTTPException 400 ''Student is not signed up for this activity''), st)
      else (if save_ok e (disk st) then Inr ?msg else Inl OSError,
            \<lparr>activities = ?acts, disk = snd (save_activities c e ?acts (disk st))\<rparr>))" .
qed

section \<open>Stores of activity records\<close>

lemma is_store_dict: "is_store v \<Longrightarrow> \<exists>kvs. v = PDict kvs \<and> keys v = map fst kvs \<and> distinct (map fst kvs)"
  by (cases v) (simp_all add: is_store_def keys_def)

lemma is_activity_participants:
  assumes "is_activity a"
  shows "\<exists>flds ps. a = PDict flds \<and> map_of flds ''participants'' = Some (PList ps)"
proof (cases a)
  case (PDict flds)
  with assms have "has_field is_str_list flds ''participants''" by (simp add: is_activity_def)
  then obtain x where x: "map_of flds ''participants'' = Some x" "is_str_list x"
    by (cases "map_of flds ''participants''") (simp_all add: has_field_def)
  then obtain ps where "x = PList ps" by (cases x) (simp_all add: is_str_list_def)
  with PDict x show ?thesis by simp
qed (use assms in \<open>simp_all add: is_activity_def\<close>)

lemma is_store_entry:
  assumes "is_store v" "A \<in> set (keys v)"
  shows "\<exists>kvs flds ps. v = PDict kvs \<and> map_of kvs A = Some (PDict flds) \<and>
           map_of flds ''participants'' = Some (PList ps) \<and> roster v A = ps"
proof -
  from assms(1) obtain kvs where v: "v = PDict kvs"
    and all: "list_all (\<lambda>kv. is_activity (snd kv)) kvs"
    by (cases v) (simp_all add: is_store_def)
  from assms(2) v have "A \<in> fst ` set kvs" by (simp add: keys_def)
  then obtain a where a: "map_of kvs A = Some a"
    by (cases "map_of kvs A") (simp_all add: map_of_eq_None_iff)
  then have "(A, a) \<in> set kvs" by (rule map_of_SomeD)
  with all have "is_activity a" by (auto simp: list_all_iff)
  then obtain flds ps where f: "a = PDict flds" "map_of flds ''participants'' = Some (PList ps)"
    using is_activity_participants by blast
  with v a have "roster v A = ps" by (simp add: roster_def participants_of_def field_of_def)
  with v a f show ?thesis by blast
qed

lemma roster_updated:
  assumes "map_of kvs A = Some (PDict flds)"
  shows "roster (PDict (AList.update A (PDict (AList.update ''participants'' (PList xs) flds)) kvs)) A = xs"
  unfolding roster_def participants_of_def field_of_def
  by (simp add: update_conv')

lemma keys_updated:
  assumes "map_of kvs A = Some a"
  shows "keys (PDict (AList.update A b kvs)) = map fst kvs"
proof -
  from map_of_key[OF assms] have "A \<in> set (map fst kvs)" .
  then show ?thesis unfolding keys_def by (simp add: update_keys)
qed

text \<open>The sample data.\<close>

lemma two_clubs_store: "is_store two_clubs"
  by (simp add: is_store_def two_clubs_def is_activity_def has_field_def is_str_def is_int_def is_str_list_def)

lemma two_clubs_keys: "keys two_clubs = [''Chess Club'', ''Art Club'']"
  by (simp add: keys_def two_clubs_def)

lemma two_clubs_chess: "roster two_clubs ''Chess Club'' = [PStr ''michael@mergington.edu'', PStr ''daniel@mergington.edu'']"
  by (simp add: roster_def participants_of_def field_of_def two_clubs_def)

lemma two_clubs_art: "roster two_clubs ''Art Club'' = [PStr ''amelia@mergington.edu'']"
  by (simp add: roster_def participants_of_def field_of_def two_clubs_def)

lemma calm_new_disk: "save_ok calm new_disk"
  by (simp add: save_ok_def calm_def new_disk_def no_files_def)

section \<open>Signing up\<close>

text \<open>
  Claim C1. In a store of activity records, \<open>signup_for_activity\<close> raises the 404
  error exactly when the name is not a key of the store, and the 400 error exactly when
  the name is a key and the email is an element of that activity's participants
  (equality of strings). In the remaining case the email is appended after the
  existing participants, whose order is kept; and when \<open>save_activities\<close> runs to
  its end (\<open>save_ok\<close>), the canonical file holds the serialisation of the whole new
  store and the confirmation message is returned.
\<close>

theorem signup_outcomes:
  assumes "is_store (activities st)"
  shows "(fst (signup_for_activity c e A E st) = Inl (HTTPException 404 ''Activity not found'')
            \<longleftrightarrow> A \<notin> set (keys (activities st))) \<and>
         (fst (signup_for_activity c e A E st) = Inl (HTTPException 400 ''Student is already signed up'')
            \<longleftrightarrow> A \<in> set (keys (activities st)) \<and> PStr E \<in> set (roster (activities st) A)) \<and>
         (A \<in> set (keys (activities st)) \<and> PStr E \<notin> set (roster (activities st) A) \<longrightarrow>
            roster (activities (snd (signup_for_activity c e A E st))) A = roster (activities st) A @ [PStr E] \<and>
            (save_ok e (disk st) \<longrightarrow>
               fst (signup_for_activity c e A E st) =
                 Inr (PDict [(''message'', PStr (''Signed up '' @ E @ '' for '' @ A))]) \<and>
               files (disk (snd (signup_for_activity c e A E st))) ACTIVITIES_FILE =
                 Some (dumps c (activities (snd (signup_for_activity c e A E st))))))"
proof (cases "A \<in> set (keys (activities st))")
  case False
  from is_store_dict[OF assms] obtain kvs where "activities st = PDict kvs" "keys (activities st) = map fst kvs"
    by blast
  with False have "signup_for_activity c e A E st = (Inl (HTTPException 404 ''Activity not found''), st)"
    by (simp add: signup_unknown)
  with False show ?thesis by simp
next
  case True
  from is_store_entry[OF assms True] obtain kvs flds ps where
    st: "activities st = PDict kvs" and a: "map_of kvs A = Some (PDict flds)"
    and p: "map_of flds ''participants'' = Some (PList ps)" and r: "roster (activities st) A = ps"
    by blast
  let ?acts = "PDict (AList.update A (PDict (AList.update ''participants'' (PList (ps @ [PStr E])) flds)) kvs)"
  note known = signup_known[OF st a p refl, of c e E]
  show ?thesis
  proof (cases "PStr E \<in> set ps")
    case True
    with known have "signup_for_activity c e A E st = (Inl (HTTPException 400 ''Student is already signed up''), st)"
      by simp
    with True \<open>A \<in> set (keys (activities st))\<close> r show ?thesis by simp
  next
    case False
    with known have R: "signup_for_activity c e A E st =
       (if save_ok e (disk st) then Inr (PDict [(''message'', PStr (''Signed up '' @ E @ '' for '' @ A))]) else Inl OSError,
        \<lparr>activities = ?acts, disk = snd (save_activities c e ?acts (disk st))\<rparr>)"
      by simp
    have ro: "roster ?acts A = ps @ [PStr E]" using a by (rule roster_updated)
    have fl: "save_ok e (disk st) \<Longrightarrow> files (snd (save_activities c e ?acts (disk st))) ACTIVITIES_FILE = Some (dumps c ?acts)"
      by (simp add: save_ok_files)
    from False \<open>A \<in> set (keys (activities st))\<close> r ro fl show ?thesis
      by (simp add: R)
  qed
qed

theorem signup_outcomes_witness:
  "is_store (activities \<lparr>activities = two_clubs, disk = new_disk\<rparr>) \<and>
   save_ok calm (disk \<lparr>activities = two_clubs, disk = new_disk\<rparr>) \<and>
   fst (signup_for_activity json calm ''Art Club'' ''new@mergington.edu'' \<lparr>activities = two_clubs, disk = new_disk\<rparr>) =
     Inr (PDict [(''message'', PStr ''Signed up new@mergington.edu for Art Club'')]) \<and>
   roster (activities (snd (signup_for_activity json calm ''Art Club'' ''new@mergington.edu''
       \<lparr>activities = two_clubs, disk = new_disk\<rparr>))) ''Art Club'' =
     [PStr ''amelia@mergington.edu'', PStr ''new@mergington.edu''] \<and>
   fst (signup_for_activity json calm ''Art Club'' ''amelia@mergington.edu'' \<lparr>activities = two_clubs, disk = new_disk\<rparr>) =
     Inl (HTTPException 400 ''Student is already signed up'') \<and>
   fst (signup_for_activity json calm ''Unknown'' ''x@y.edu'' \<lparr>activities = two_clubs, disk = new_disk\<rparr>) =
     Inl (HTTPException 404 ''Activity not found'')"
  using signup_outcomes [of "\<lparr>activities = two_clubs, disk = new_disk\<rparr>" json calm "''Art Club''" "''new@mergington.edu''"]
    signup_outcomes [of "\<lparr>activities = two_clubs, disk = new_disk\<rparr>" json calm "''Art Club''" "''amelia@mergington.edu''"]
    signup_outcomes [of "\<lparr>activities = two_clubs, disk = new_disk\<rparr>" json calm "''Unknown''" "''x@y.edu''"]
  by (simp add: two_clubs_store two_clubs_keys two_clubs_art calm_new_disk)

section \<open>Unregistering\<close>

lemma remove1_first:
  assumes "x \<in> set xs"
  shows "\<exists>pre post. xs = pre @ x # post \<and> x \<notin> set pre \<and> remove1 x xs = pre @ post"
proof -
  from split_list_first[OF assms] obtain pre post where "xs = pre @ x # post" "x \<notin> set pre" by blast
  then show ?thesis by (auto simp: remove1_append)
qed

text \<open>
  Claim C2. In a store of activity records, \<open>unregister_from_activity\<close> raises the
  404 error exactly when the name is not a key of the store, and the 400 error exactly
  when the name is a key and the email is not an element of that activity's
  participants; with the 400 error the whole state, store and files, is unchanged.
  In the remaining case exactly the first occurrence of the email leaves the list; and
  when \<open>save_activities\<close> runs to its end (\<open>save_ok\<close>), the canonical file holds
  the serialisation of the whole new store and the confirmation message is returned.
\<close>

theorem unregister_outcomes:
  assumes "is_store (activities st)"
  shows "(fst (unregister_from_activity c e A E st) = Inl (HTTPException 404 ''Activity not found'')
            \<longleftrightarrow> A \<notin> set (keys (activities st))) \<and>
         (fst (unregister_from_activity c e A E st) =
              Inl (HTTPException 400 ''Student is not signed up for this activity'')
            \<longleftrightarrow> A \<in> set (keys (activities st)) \<and> PStr E \<notin> set (roster (activities st) A)) \<and>
         (fst (unregister_from_activity c e A E st) =
              Inl (HTTPException 400 ''Student is not signed up for this activity'')
            \<longrightarrow> snd (unregister_from_activity c e A E st) = st) \<and>
         (A \<in> set (keys (activities st)) \<and> PStr E \<in> set (roster (activities st) A) \<longrightarrow>
            (\<exists>pre post. roster (activities st) A = pre @ PStr E # post \<and> PStr E \<notin> set pre \<and>
               roster (activities (snd (unregister_from_activity c e A E st))) A = pre @ post) \<and>
            (save_ok e (disk st) \<longrightarrow>
               fst (unregister_from_activity c e A E st) =
                 Inr (PDict [(''message'', PStr (''Unregistered '' @ E @ '' from '' @ A))]) \<and>
               files (disk (snd (unregister_from_activity c e A E st))) ACTIVITIES_FILE =
                 Some (dumps c (activities (snd (unregister_from_activity c e A E st))))))"
proof (cases "A \<in> set (keys (activities st))")
  case False
  from is_store_dict[OF assms] obtain kvs where "activities st = PDict kvs" "keys (activities st) = map fst kvs"
    by blast
  with False have "unregister_from_activity c e A E st = (Inl (HTTPException 404 ''Activity not found''), st)"
    by (simp add: unregister_unknown)
  with False show ?thesis by simp
next
  case True
  from is_store_entry[OF assms True] obtain kvs flds ps where
    st: "activities st = PDict kvs" and a: "map_of kvs A = Some (PDict flds)"
    and p: "map_of flds ''participants'' = Some (PList ps)" and r: "roster (activities st) A = ps"
    by blast
  let ?acts = "PDict (AList.update A (PDict (AList.update ''participants'' (PList (remove1 (PStr E) ps)) flds)) kvs)"
  note known = unregister_known[OF st a p refl, of c e E]
  show ?thesis
  proof (cases "PStr E \<in> set ps")
    case False
    with known have "unregister_from_activity c e A E st =
        (Inl (HTTPException 400 ''Student is not signed up for this activity''), st)"
      by simp
    with False True r show ?thesis by simp
  next
    case in_list: True
    with known have R: "unregister_from_activity c e A E st =
       (if save_ok e (disk st) then Inr (PDict [(''message'', PStr (''Unregistered '' @ E @ '' from '' @ A))])
        else Inl OSError,
        \<lparr>activities = ?acts, disk = snd (save_activities c e ?acts (disk st))\<rparr>)"
      by simp
    have ro: "roster ?acts A = remove1 (PStr E) ps" using a by (rule roster_updated)
    from remove1_first[OF in_list] obtain pre post where
      sp: "ps = pre @ PStr E # post" "PStr E \<notin> set pre" "remove1 (PStr E) ps = pre @ post" by blast
    have ex: "\<exists>pre post. roster (activities st) A = pre @ PStr E # post \<and> PStr E \<notin> set pre \<and>
               roster (activities (snd (unregister_from_activity c e A E st))) A = pre @ post"
      using sp r ro by (auto simp: R)
    have fl: "save_ok e (disk st) \<Longrightarrow> files (snd (save_activities c e ?acts (disk st))) ACTIVITIES_FILE = Some (dumps c ?acts)"
      by (simp add: save_ok_files)
    have "fst (unregister_from_activity c e A E st) \<noteq> Inl (HTTPException 404 ''Activity not found'')"
      "fst (unregister_from_activity c e A E st) \<noteq> Inl (HTTPException 400 ''Student is not signed up for this activity'')"
      by (simp_all add: R)
    moreover have "save_ok e (disk st) \<longrightarrow>
               fst (unregister_from_activity c e A E st) =
                 Inr (PDict [(''message'', PStr (''Unregistered '' @ E @ '' from '' @ A))]) \<and>
               files (disk (snd (unregister_from_activity c e A E st))) ACTIVITIES_FILE =
                 Some (dumps c (activities (snd (unregister_from_activity c e A E st))))"
      using fl by (simp add: R)
    ultimately show ?thesis using True in_list r ex by blast
  qed
qed

theorem unregister_outcomes_witness:
  "is_store (activities \<lparr>activities = two_clubs, disk = new_disk\<rparr>) \<and>
   save_ok calm (disk \<lparr>activities = two_clubs, disk = new_disk\<rparr>) \<and>
   fst (unregister_from_activity json calm ''Chess Club'' ''michael@mergington.edu''
          \<lparr>activities = two_clubs, disk = new_disk\<rparr>) =
     Inr (PDict [(''message'', PStr ''Unregistered michael@mergington.edu from Chess Club'')]) \<and>
   fst (unregister_from_activity json calm ''Chess Club'' ''amelia@mergington.edu''
          \<lparr>activities = two_clubs, disk = new_disk\<rparr>) =
     Inl (HTTPException 400 ''Student is not signed up for this activity'') \<and>
   snd (unregister_from_activity json calm ''Chess Club'' ''amelia@mergington.edu''
          \<lparr>activities = two_clubs, disk = new_disk\<rparr>) = \<lparr>activities = two_clubs, disk = new_disk\<rparr> \<and>
   fst (unregister_from_activity json calm ''Unknown'' ''x@y.edu'' \<lparr>activities = two_clubs, disk = new_disk\<rparr>) =
     Inl (HTTPException 404 ''Activity not found'')"
  using unregister_outcomes [of "\<lparr>activities = two_clubs, disk = new_disk\<rparr>" json calm "''Chess Club''" "''michael@mergington.edu''"]
    unregister_outcomes [of "\<lparr>activities = two_clubs, disk = new_disk\<rparr>" json calm "''Chess Club''" "''amelia@mergington.edu''"]
    unregister_outcomes [of "\<lparr>activities = two_clubs, disk = new_disk\<rparr>" json calm "''Unknown''" "''x@y.edu''"]
  by (simp add: two_clubs_store two_clubs_keys two_clubs_chess calm_new_disk)

lemma length_update_known: "k \<in> fst ` set al \<Longrightarrow> length (AList.update k v al) = length al"
  by (induction al) auto

lemma list_all_update:
  "list_all (\<lambda>kv. P (snd kv)) al \<Longrightarrow> P v \<Longrightarrow> list_all (\<lambda>kv. P (snd kv)) (AList.update k v al)"
  by (induction al) auto

lemma has_field_update:
  "has_field ty (AList.update k v al) k' = (if k' = k then ty v else has_field ty al k')"
  by (simp add: has_field_def update_conv')

lemma is_activity_update:
  assumes "is_activity (PDict flds)" "list_all is_str xs"
  shows "is_activity (PDict (AList.update ''participants'' (PList xs) flds))"
proof -
  from assms(1) have "has_field is_str_list flds ''participants''" by (simp add: is_activity_def)
  then have "''participants'' \<in> fst ` set flds"
    by (cases "map_of flds ''participants''") (auto simp: has_field_def dest: map_of_SomeD intro: rev_image_eqI)
  with assms show ?thesis
    by (simp add: is_activity_def has_field_update length_update_known distinct_update is_str_list_def)
qed

lemma is_store_update:
  assumes "is_store (PDict kvs)" "is_activity a"
  shows "is_store (PDict (AList.update A a kvs))"
  using assms by (simp add: is_store_def distinct_update list_all_update)

lemma getitem_other:
  "B \<noteq> A \<Longrightarrow> getitem (PDict (AList.update A a kvs)) B = getitem (PDict kvs) B"
  by (simp add: update_conv')

lemma roster_other:
  "B \<noteq> A \<Longrightarrow> roster (PDict (AList.update A a kvs)) B = roster (PDict kvs) B"
  unfolding roster_def participants_of_def field_of_def by (simp add: update_conv')

lemma field_other:
  assumes "map_of kvs A = Some (PDict flds)" "k \<noteq> ''participants''"
  shows "field_of (PDict (AList.update A (PDict (AList.update ''participants'' x flds)) kvs)) A k
         = field_of (PDict kvs) A k"
  using assms unfolding field_of_def by (simp add: update_conv')

lemma is_store_roster_strs:
  assumes "is_store v" "A \<in> set (keys v)"
  shows "list_all is_str (roster v A)"
proof -
  from assms(1) obtain kvs where v: "v = PDict kvs"
    and all: "list_all (\<lambda>kv. is_activity (snd kv)) kvs"
    by (cases v) (simp_all add: is_store_def)
  from is_store_entry[OF assms] v obtain flds ps where a: "map_of kvs A = Some (PDict flds)"
    and p: "map_of flds ''participants'' = Some (PList ps)" and r: "roster v A = ps" by auto
  from a have "(A, PDict flds) \<in> set kvs" by (rule map_of_SomeD)
  with all have "is_activity (PDict flds)" by (auto simp: list_all_iff)
  then have "has_field is_str_list flds ''participants''" by (simp add: is_activity_def)
  with p r show ?thesis by (simp add: has_field_def is_str_list_def)
qed

lemma is_store_activity:
  assumes "is_store (PDict kvs)" "map_of kvs A = Some a"
  shows "is_activity a"
proof -
  from assms(2) have "(A, a) \<in> set kvs" by (rule map_of_SomeD)
  with assms(1) show ?thesis by (auto simp: is_store_def list_all_iff)
qed

text \<open>The store after the participants of a known activity have been replaced.\<close>

lemma store_after:
  assumes s: "is_store (PDict kvs)" and a: "map_of kvs A = Some (PDict flds)"
    and x: "list_all is_str xs"
    and acts: "acts = PDict (AList.update A (PDict (AList.update ''participants'' (PList xs) flds)) kvs)"
  shows "is_store acts \<and> keys acts = map fst kvs \<and> roster acts A = xs \<and>
         (\<forall>B. B \<noteq> A \<longrightarrow> getitem acts B = getitem (PDict kvs) B \<and> roster acts B = roster (PDict kvs) B) \<and>
         (\<forall>k. k \<noteq> ''participants'' \<longrightarrow> field_of acts A k = field_of (PDict kvs) A k)"
proof -
  from is_store_activity[OF s a] have "is_activity (PDict flds)" .
  then have "is_activity (PDict (AList.update ''participants'' (PList xs) flds))"
    using x by (rule is_activity_update)
  with s have "is_store acts" unfolding acts by (rule is_store_update)
  moreover have "keys acts = map fst kvs" unfolding acts using a by (rule keys_updated)
  moreover have "roster acts A = xs" unfolding acts using a by (rule roster_updated)
  moreover have "\<forall>B. B \<noteq> A \<longrightarrow> getitem acts B = getitem (PDict kvs) B \<and> roster acts B = roster (PDict kvs) B"
    unfolding acts using getitem_other roster_other by blast
  moreover have "\<forall>k. k \<noteq> ''participants'' \<longrightarrow> field_of acts A k = field_of (PDict kvs) A k"
    unfolding acts using field_other[OF a] by blast
  ultimately show ?thesis by blast
qed

text \<open>The two handlers on a store of activity records: what they return, and the
  store they leave.\<close>

lemma signup_refused:
  assumes "is_store (activities st)"
  shows "A \<notin> set (keys (activities st)) \<Longrightarrow>
           signup_for_activity c e A E st = (Inl (HTTPException 404 ''Activity not found''), st)"
    and "A \<in> set (keys (activities st)) \<Longrightarrow> PStr E \<in> set (roster (activities st) A) \<Longrightarrow>
           signup_for_activity c e A E st = (Inl (HTTPException 400 ''Student is already signed up''), st)"
proof -
  assume n: "A \<notin> set (keys (activities st))"
  from is_store_dict[OF assms] obtain kvs where "activities st = PDict kvs" "keys (activities st) = map fst kvs"
    by blast
  with n show "signup_for_activity c e A E st = (Inl (HTTPException 404 ''Activity not found''), st)"
    by (simp add: signup_unknown)
next
  assume k: "A \<in> set (keys (activities st))" and i: "PStr E \<in> set (roster (activities st) A)"
  from is_store_entry[OF assms k] obtain kvs flds ps where
    st: "activities st = PDict kvs" and a: "map_of kvs A = Some (PDict flds)"
    and p: "map_of flds ''participants'' = Some (PList ps)" and r: "roster (activities st) A = ps"
    by blast
  from signup_known[OF st a p refl, of c e E] i r
  show "signup_for_activity c e A E st = (Inl (HTTPException 400 ''Student is already signed up''), st)"
    by simp
qed

lemma signup_accepted:
  assumes s: "is_store (activities st)" and k: "A \<in> set (keys (activities st))"
    and n: "PStr E \<notin> set (roster (activities st) A)"
  shows "\<exists>acts. signup_for_activity c e A E st =
           (if save_ok e (disk st) then Inr (PDict [(''message'', PStr (''Signed up '' @ E @ '' for '' @ A))])
            else Inl OSError,
            \<lparr>activities = acts, disk = snd (save_activities c e acts (disk st))\<rparr>) \<and>
         is_store acts \<and> keys acts = keys (activities st) \<and>
         roster acts A = roster (activities st) A @ [PStr E] \<and>
         (\<forall>B. B \<noteq> A \<longrightarrow> getitem acts B = getitem (activities st) B \<and> roster acts B = roster (activities st) B) \<and>
         (\<forall>k. k \<noteq> ''participants'' \<longrightarrow> field_of acts A k = field_of (activities st) A k)"
proof -
  from is_store_entry[OF s k] obtain kvs flds ps where
    st: "activities st = PDict kvs" and a: "map_of kvs A = Some (PDict flds)"
    and p: "map_of flds ''participants'' = Some (PList ps)" and r: "roster (activities st) A = ps"
    by blast
  let ?acts = "PDict (AList.update A (PDict (AList.update ''participants'' (PList (ps @ [PStr E])) flds)) kvs)"
  from is_store_roster_strs[OF s k] r have "list_all is_str (ps @ [PStr E])" by (simp add: is_str_def)
  from store_after[OF s[unfolded st] a this refl]
  have after: "is_store ?acts \<and> keys ?acts = map fst kvs \<and> roster ?acts A = ps @ [PStr E] \<and>
         (\<forall>B. B \<noteq> A \<longrightarrow> getitem ?acts B = getitem (PDict kvs) B \<and> roster ?acts B = roster (PDict kvs) B) \<and>
         (\<forall>k. k \<noteq> ''participants'' \<longrightarrow> field_of ?acts A k = field_of (PDict kvs) A k)" .
  have kk: "keys (activities st) = map fst kvs" by (simp add: st keys_def)
  from signup_known[OF st a p refl, of c e E] n r
  have "signup_for_activity c e A E st =
           (if save_ok e (disk st) then Inr (PDict [(''message'', PStr (''Signed up '' @ E @ '' for '' @ A))])
            else Inl OSError,
            \<lparr>activities = ?acts, disk = snd (save_activities c e ?acts (disk st))\<rparr>)" by simp
  with after kk r st show ?thesis by (intro exI[of _ ?acts]) simp
qed

lemma unregister_refused:
  assumes "is_store (activities st)"
  shows "A \<notin> set (keys (activities st)) \<Longrightarrow>
           unregister_from_activity c e A E st = (Inl (HTTPException 404 ''Activity not found''), st)"
    and "A \<in> set (keys (activities st)) \<Longrightarrow> PStr E \<notin> set (roster (activities st) A) \<Longrightarrow>
           unregister_from_activity c e A E st =
             (Inl (HTTPException 400 ''Student is not signed up for this activity''), st)"
proof -
  assume n: "A \<notin> set (keys (activities st))"
  from is_store_dict[OF assms] obtain kvs where "activities st = PDict kvs" "keys (activities st) = map fst kvs"
    by blast
  with n show "unregister_from_activity c e A E st = (Inl (HTTPException 404 ''Activity not found''), st)"
    by (simp add: unregister_unknown)
next
  assume k: "A \<in> set (keys (activities st))" and i: "PStr E \<notin> set (roster (activities st) A)"
  from is_store_entry[OF assms k] obtain kvs flds ps where
    st: "activities st = PDict kvs" and a: "map_of kvs A = Some (PDict flds)"
    and p: "map_of flds ''participants'' = Some (PList ps)" and r: "roster (activities st) A = ps"
    by blast
  from unregister_known[OF st a p refl, of c e E] i r
  show "unregister_from_activity c e A E st =
          (Inl (HTTPException 400 ''Student is not signed up for this activity''), st)"
    by simp
qed

lemma list_all_remove1: "list_all P xs \<Longrightarrow> list_all P (remove1 x xs)"
  by (induction xs) auto

lemma unregister_accepted:
  assumes s: "is_store (activities st)" and k: "A \<in> set (keys (activities st))"
    and n: "PStr E \<in> set (roster (activities st) A)"
  shows "\<exists>acts. unregister_from_activity c e A E st =
           (if save_ok e (disk st) then Inr (PDict [(''message'', PStr (''Unregistered '' @ E @ '' from '' @ A))])
            else Inl OSError,
            \<lparr>activities = acts, disk = snd (save_activities c e acts (disk st))\<rparr>) \<and>
         is_store acts \<and> keys acts = keys (activities st) \<and>
         roster acts A = remove1 (PStr E) (roster (activities st) A) \<and>
         (\<forall>B. B \<noteq> A \<longrightarrow> getitem acts B = getitem (activities st) B \<and> roster acts B = roster (activities st) B) \<and>
         (\<forall>k. k \<noteq> ''participants'' \<longrightarrow> field_of acts A k = field_of (activities st) A k)"
proof -
  from is_store_entry[OF s k] obtain kvs flds ps where
    st: "activities st = PDict kvs" and a: "map_of kvs A = Some (PDict flds)"
    and p: "map_of flds ''participants'' = Some (PList ps)" and r: "roster (activities st) A = ps"
    by blast
  let ?acts = "PDict (AList.update A (PDict (AList.update ''participants'' (PList (remove1 (PStr E) ps)) flds)) kvs)"
  from is_store_roster_strs[OF s k] r have "list_all is_str (remove1 (PStr E) ps)" by (simp add: list_all_remove1)
  from store_after[OF s[unfolded st] a this refl]
  have after: "is_store ?acts \<and> keys ?acts = map fst kvs \<and> roster ?acts A = remove1 (PStr E) ps \<and>
         (\<forall>B. B \<noteq> A \<longrightarrow> getitem ?acts B = getitem (PDict kvs) B \<and> roster ?acts B = roster (PDict kvs) B) \<and>
         (\<forall>k. k \<noteq> ''participants'' \<longrightarrow> field_of ?acts A k = field_of (PDict kvs) A k)" .
  have kk: "keys (activities st) = map fst kvs" by (simp add: st keys_def)
  from unregister_known[OF st a p refl, of c e E] n r
  have "unregister_from_activity c e A E st =
           (if save_ok e (disk st) then Inr (PDict [(''message'', PStr (''Unregistered '' @ E @ '' from '' @ A))])
            else Inl OSError,
            \<lparr>activities = ?acts, disk = snd (save_activities c e ?acts (disk st))\<rparr>)" by simp
  with after kk r st show ?thesis by (intro exI[of _ ?acts]) simp
qed

section \<open>Signing up twice, and capacity\<close>

text \<open>
  Claim C6. In a store of activity records, after a signup that returns its
  confirmation the email occurs exactly once among the participants of the activity.
  When the activity is known, the email is not among its participants and the first
  call is saved, a second call with the same name and email, in any environment,
  raises the 400 error, and after both calls the list is longer by exactly one.
\<close>

theorem signup_twice:
  assumes "is_store (activities st)"
  shows "((\<exists>r. fst (signup_for_activity c e A E st) = Inr r) \<longrightarrow>
            count_list (roster (activities (snd (signup_for_activity c e A E st))) A) (PStr E) = 1) \<and>
         (A \<in> set (keys (activities st)) \<and> PStr E \<notin> set (roster (activities st) A) \<and> save_ok e (disk st) \<longrightarrow>
            fst (signup_for_activity c e A E st) =
              Inr (PDict [(''message'', PStr (''Signed up '' @ E @ '' for '' @ A))]) \<and>
            fst (signup_for_activity c e' A E (snd (signup_for_activity c e A E st))) =
              Inl (HTTPException 400 ''Student is already signed up'') \<and>
            length (roster (activities (snd (signup_for_activity c e' A E (snd (signup_for_activity c e A E st))))) A) =
              length (roster (activities st) A) + 1)"
proof (cases "A \<in> set (keys (activities st)) \<and> PStr E \<notin> set (roster (activities st) A)")
  case False
  then have "\<exists>err. signup_for_activity c e A E st = (Inl err, st)"
    using signup_refused[OF assms] by blast
  with False show ?thesis by auto
next
  case True
  then have k: "A \<in> set (keys (activities st))" and n: "PStr E \<notin> set (roster (activities st) A)" by simp_all
  from signup_accepted[OF assms k n, of c e] obtain acts where
    R: "signup_for_activity c e A E st =
           (if save_ok e (disk st) then Inr (PDict [(''message'', PStr (''Signed up '' @ E @ '' for '' @ A))])
            else Inl OSError,
            \<lparr>activities = acts, disk = snd (save_activities c e acts (disk st))\<rparr>)"
    and s': "is_store acts" and k': "keys acts = keys (activities st)"
    and r': "roster acts A = roster (activities st) A @ [PStr E]" by blast
  let ?st' = "\<lparr>activities = acts, disk = snd (save_activities c e acts (disk st))\<rparr>"
  have once: "count_list (roster acts A) (PStr E) = 1" using n by (simp add: r' count_list_0_iff)
  have "signup_for_activity c e' A E ?st' = (Inl (HTTPException 400 ''Student is already signed up''), ?st')"
    using signup_refused(2)[where st="?st'" and A=A and E=E and c=c and e=e'] s' k' k r' by simp
  with once r' show ?thesis by (simp add: R)
qed

theorem signup_twice_witness:
  "is_store (activities \<lparr>activities = two_clubs, disk = new_disk\<rparr>) \<and>
   ''Art Club'' \<in> set (keys two_clubs) \<and>
   PStr ''new@mergington.edu'' \<notin> set (roster two_clubs ''Art Club'') \<and>
   save_ok calm new_disk \<and>
   (\<exists>r. fst (signup_for_activity json calm ''Art Club'' ''new@mergington.edu''
               \<lparr>activities = two_clubs, disk = new_disk\<rparr>) = Inr r) \<and>
   count_list (roster (activities (snd (signup_for_activity json calm ''Art Club'' ''new@mergington.edu''
               \<lparr>activities = two_clubs, disk = new_disk\<rparr>))) ''Art Club'') (PStr ''new@mergington.edu'') = 1 \<and>
   fst (signup_for_activity json calm ''Art Club'' ''new@mergington.edu''
         (snd (signup_for_activity json calm ''Art Club'' ''new@mergington.edu''
               \<lparr>activities = two_clubs, disk = new_disk\<rparr>))) =
     Inl (HTTPException 400 ''Student is already signed up'') \<and>
   length (roster (activities (snd (signup_for_activity json calm ''Art Club'' ''new@mergington.edu''
         (snd (signup_for_activity json calm ''Art Club'' ''new@mergington.edu''
               \<lparr>activities = two_clubs, disk = new_disk\<rparr>))))) ''Art Club'') = 2"
  using signup_twice [of "\<lparr>activities = two_clubs, disk = new_disk\<rparr>" json calm "''Art Club''" "''new@mergington.edu''" calm]
  by (simp add: two_clubs_store two_clubs_keys two_clubs_art calm_new_disk)

text \<open>
  Claim C8. \<open>signup_for_activity\<close> never compares the number of participants with
  \<open>max_participants\<close>: for a known activity whose list is already as long as its
  capacity \<open>m\<close> or longer, and an email that is not in the list, the call returns its
  confirmation and leaves a list longer than \<open>m\<close>.
\<close>

theorem signup_ignores_capacity:
  assumes "is_store (activities st)" and "A \<in> set (keys (activities st))"
    and "PStr E \<notin> set (roster (activities st) A)"
    and "field_of (activities st) A ''max_participants'' = Some (PInt m)"
    and "m \<le> int (length (roster (activities st) A))"
    and "save_ok e (disk st)"
  shows "fst (signup_for_activity c e A E st) =
           Inr (PDict [(''message'', PStr (''Signed up '' @ E @ '' for '' @ A))]) \<and>
         roster (activities (snd (signup_for_activity c e A E st))) A = roster (activities st) A @ [PStr E] \<and>
         field_of (activities (snd (signup_for_activity c e A E st))) A ''max_participants'' = Some (PInt m) \<and>
         m < int (length (roster (activities (snd (signup_for_activity c e A E st))) A))"
proof -
  from signup_accepted[OF assms(1-3), of c e] obtain acts where
    R: "signup_for_activity c e A E st =
           (if save_ok e (disk st) then Inr (PDict [(''message'', PStr (''Signed up '' @ E @ '' for '' @ A))])
            else Inl OSError,
            \<lparr>activities = acts, disk = snd (save_activities c e acts (disk st))\<rparr>)"
    and r': "roster acts A = roster (activities st) A @ [PStr E]"
    and f: "\<forall>k. k \<noteq> ''participants'' \<longrightarrow> field_of acts A k = field_of (activities st) A k" by blast
  from f have "field_of acts A ''max_participants'' = field_of (activities st) A ''max_participants''" by simp
  with assms(4-6) r' show ?thesis by (simp add: R)
qed

lemma two_clubs_chess_max: "field_of two_clubs ''Chess Club'' ''max_participants'' = Some (PInt 2)"
  by (simp add: field_of_def two_clubs_def)

theorem signup_ignores_capacity_witness:
  "is_store (activities \<lparr>activities = two_clubs, disk = new_disk\<rparr>) \<and>
   ''Chess Club'' \<in> set (keys two_clubs) \<and>
   PStr ''new@mergington.edu'' \<notin> set (roster two_clubs ''Chess Club'') \<and>
   field_of two_clubs ''Chess Club'' ''max_participants'' = Some (PInt 2) \<and>
   (2::int) \<le> int (length (roster two_clubs ''Chess Club'')) \<and>
   save_ok calm new_disk \<and>
   fst (signup_for_activity json calm ''Chess Club'' ''new@mergington.edu''
          \<lparr>activities = two_clubs, disk = new_disk\<rparr>) =
     Inr (PDict [(''message'', PStr ''Signed up new@mergington.edu for Chess Club'')]) \<and>
   roster (activities (snd (signup_for_activity json calm ''Chess Club'' ''new@mergington.edu''
          \<lparr>activities = two_clubs, disk = new_disk\<rparr>))) ''Chess Club'' =
     [PStr ''michael@mergington.edu'', PStr ''daniel@mergington.edu'', PStr ''new@mergington.edu'']"
  using signup_ignores_capacity [of "\<lparr>activities = two_clubs, disk = new_disk\<rparr>" "''Chess Club''"
      "''new@mergington.edu''" 2 calm json]
  by (simp add: two_clubs_store two_clubs_keys two_clubs_chess two_clubs_chess_max calm_new_disk)

section \<open>What the handlers leave unchanged\<close>

lemma two_clubs_signup:
  "fst (signup_for_activity json calm ''Art Club'' ''new@mergington.edu''
          \<lparr>activities = two_clubs, disk = new_disk\<rparr>) =
     Inr (PDict [(''message'', PStr ''Signed up new@mergington.edu for Art Club'')])"
  using signup_accepted [of "\<lparr>activities = two_clubs, disk = new_disk\<rparr>" "''Art Club''" "''new@mergington.edu''" json calm]
  by (auto simp add: two_clubs_store two_clubs_keys two_clubs_art calm_new_disk)

lemma two_clubs_unregister:
  "fst (unregister_from_activity json calm ''Chess Club'' ''michael@mergington.edu''
          \<lparr>activities = two_clubs, disk = new_disk\<rparr>) =
     Inr (PDict [(''message'', PStr ''Unregistered michael@mergington.edu from Chess Club'')])"
  using unregister_accepted [of "\<lparr>activities = two_clubs, disk = new_disk\<rparr>" "''Chess Club''" "''michael@mergington.edu''" json calm]
  by (auto simp add: two_clubs_store two_clubs_keys two_clubs_chess calm_new_disk)

lemma two_clubs_fields:
  "getitem two_clubs ''Chess Club'' =
     Inr (PDict [(''description'', PStr ''Learn strategies and compete in chess tournaments''),
             (''schedule'', PStr ''Fridays, 3:30 PM - 5:00 PM''),
             (''max_participants'', PInt 2),
             (''participants'', PList [PStr ''michael@mergington.edu'', PStr ''daniel@mergington.edu''])])"
  "getitem two_clubs ''Art Club'' =
     Inr (PDict [(''description'', PStr ''Explore your creativity through painting and drawing''),
             (''schedule'', PStr ''Thursdays, 3:30 PM - 5:00 PM''),
             (''max_participants'', PInt 15),
             (''participants'', PList [PStr ''amelia@mergington.edu''])])"
  "field_of two_clubs ''Art Club'' ''max_participants'' = Some (PInt 15)"
  "field_of two_clubs ''Chess Club'' ''schedule'' = Some (PStr ''Fridays, 3:30 PM - 5:00 PM'')"
  by (simp_all add: field_of_def two_clubs_def)

lemma two_clubs_no_dups: "no_dups two_clubs"
  by (simp add: no_dups_def two_clubs_keys two_clubs_chess two_clubs_art)

text \<open>
  Claim C9. In a store of activity records, a signup or an unregistration for \<open>A\<close>
  that returns its confirmation changes nothing in memory but the participants of
  \<open>A\<close>: the keys of the store stay as they are, in their order, the record under
  every other key \<open>B\<close> is the same, and every field \<open>k\<close> of \<open>A\<close> other than
  \<open>participants\<close> (so its description, its schedule and its capacity) is the same.
\<close>

theorem handlers_frame:
  assumes "is_store (activities st)"
  shows "(fst (signup_for_activity c e A E st) = Inr r \<longrightarrow>
            keys (activities (snd (signup_for_activity c e A E st))) = keys (activities st) \<and>
            (B \<noteq> A \<longrightarrow> getitem (activities (snd (signup_for_activity c e A E st))) B = getitem (activities st) B) \<and>
            (k \<noteq> ''participants'' \<longrightarrow>
               field_of (activities (snd (signup_for_activity c e A E st))) A k = field_of (activities st) A k)) \<and>
         (fst (unregister_from_activity c e A E st) = Inr r \<longrightarrow>
            keys (activities (snd (unregister_from_activity c e A E st))) = keys (activities st) \<and>
            (B \<noteq> A \<longrightarrow> getitem (activities (snd (unregister_from_activity c e A E st))) B = getitem (activities st) B) \<and>
            (k \<noteq> ''participants'' \<longrightarrow>
               field_of (activities (snd (unregister_from_activity c e A E st))) A k = field_of (activities st) A k))"
proof (intro conjI impI)
  assume ok: "fst (signup_for_activity c e A E st) = Inr r"
  have acc: "A \<in> set (keys (activities st)) \<and> PStr E \<notin> set (roster (activities st) A)"
  proof (rule ccontr)
    assume "\<not> ?thesis"
    then have "\<exists>err. signup_for_activity c e A E st = (Inl err, st)"
      using signup_refused[OF assms] by blast
    with ok show False by auto
  qed
  from signup_accepted[OF assms, of A E c e] acc obtain acts where
    R: "snd (signup_for_activity c e A E st) = \<lparr>activities = acts, disk = snd (save_activities c e acts (disk st))\<rparr>"
    and fr: "keys acts = keys (activities st)"
      "\<forall>B. B \<noteq> A \<longrightarrow> getitem acts B = getitem (activities st) B \<and> roster acts B = roster (activities st) B"
      "\<forall>k. k \<noteq> ''participants'' \<longrightarrow> field_of acts A k = field_of (activities st) A k"
    by auto
  show "keys (activities (snd (signup_for_activity c e A E st))) = keys (activities st)"
    using fr(1) by (simp add: R)
  show "getitem (activities (snd (signup_for_activity c e A E st))) B = getitem (activities st) B" if "B \<noteq> A"
    using fr(2) that by (simp add: R)
  show "field_of (activities (snd (signup_for_activity c e A E st))) A k = field_of (activities st) A k"
    if "k \<noteq> ''participants''"
    using fr(3) that by (simp add: R)
next
  assume ok: "fst (unregister_from_activity c e A E st) = Inr r"
  have acc: "A \<in> set (keys (activities st)) \<and> PStr E \<in> set (roster (activities st) A)"
  proof (rule ccontr)
    assume "\<not> ?thesis"
    then have "\<exists>err. unregister_from_activity c e A E st = (Inl err, st)"
      using unregister_refused[OF assms] by blast
    with ok show False by auto
  qed
  from unregister_accepted[OF assms, of A E c e] acc obtain acts where
    R: "snd (unregister_from_activity c e A E st) = \<lparr>activities = acts, disk = snd (save_activities c e acts (disk st))\<rparr>"
    and fr: "keys acts = keys (activities st)"
      "\<forall>B. B \<noteq> A \<longrightarrow> getitem acts B = getitem (activities st) B \<and> roster acts B = roster (activities st) B"
      "\<forall>k. k \<noteq> ''participants'' \<longrightarrow> field_of acts A k = field_of (activities st) A k"
    by auto
  show "keys (activities (snd (unregister_from_activity c e A E st))) = keys (activities st)"
    using fr(1) by (simp add: R)
  show "getitem (activities (snd (unregister_from_activity c e A E st))) B = getitem (activities st) B" if "B \<noteq> A"
    using fr(2) that by (simp add: R)
  show "field_of (activities (snd (unregister_from_activity c e A E st))) A k = field_of (activities st) A k"
    if "k \<noteq> ''participants''"
    using fr(3) that by (simp add: R)
qed


theorem handlers_frame_witness:
  "is_store (activities \<lparr>activities = two_clubs, disk = new_disk\<rparr>) \<and>
   fst (signup_for_activity json calm ''Art Club'' ''new@mergington.edu''
          \<lparr>activities = two_clubs, disk = new_disk\<rparr>) =
     Inr (PDict [(''message'', PStr ''Signed up new@mergington.edu for Art Club'')]) \<and>
   ''Chess Club'' \<noteq> ''Art Club'' \<and> ''max_participants'' \<noteq> ''participants'' \<and>
   keys (activities (snd (signup_for_activity json calm ''Art Club'' ''new@mergington.edu''
          \<lparr>activities = two_clubs, disk = new_disk\<rparr>))) = [''Chess Club'', ''Art Club''] \<and>
   getitem (activities (snd (signup_for_activity json calm ''Art Club'' ''new@mergington.edu''
          \<lparr>activities = two_clubs, disk = new_disk\<rparr>))) ''Chess Club'' = getitem two_clubs ''Chess Club'' \<and>
   field_of (activities (snd (signup_for_activity json calm ''Art Club'' ''new@mergington.edu''
          \<lparr>activities = two_clubs, disk = new_disk\<rparr>))) ''Art Club'' ''max_participants'' = Some (PInt 15) \<and>
   fst (unregister_from_activity json calm ''Chess Club'' ''michael@mergington.edu''
          \<lparr>activities = two_clubs, disk = new_disk\<rparr>) =
     Inr (PDict [(''message'', PStr ''Unregistered michael@mergington.edu from Chess Club'')]) \<and>
   ''Art Club'' \<noteq> ''Chess Club'' \<and> ''schedule'' \<noteq> ''participants'' \<and>
   getitem (activities (snd (unregister_from_activity json calm ''Chess Club'' ''michael@mergington.edu''
          \<lparr>activities = two_clubs, disk = new_disk\<rparr>))) ''Art Club'' = getitem two_clubs ''Art Club'' \<and>
   field_of (activities (snd (unregister_from_activity json calm ''Chess Club'' ''michael@mergington.edu''
          \<lparr>activities = two_clubs, disk = new_disk\<rparr>))) ''Chess Club'' ''schedule'' =
     Some (PStr ''Fridays, 3:30 PM - 5:00 PM'')"
  using handlers_frame [of "\<lparr>activities = two_clubs, disk = new_disk\<rparr>" json calm "''Art Club''"
      "''new@mergington.edu''" "PDict [(''message'', PStr ''Signed up new@mergington.edu for Art Club'')]"
      "''Chess Club''" "''max_participants''"]
    handlers_frame [of "\<lparr>activities = two_clubs, disk = new_disk\<rparr>" json calm "''Chess Club''"
      "''michael@mergington.edu''" "PDict [(''message'', PStr ''Unregistered michael@mergington.edu from Chess Club'')]"
      "''Art Club''" "''schedule''"]
  by (simp add: two_clubs_store two_clubs_keys two_clubs_signup two_clubs_unregister two_clubs_fields)

text \<open>
  Claim C10. If no participants list of a store of activity records names an email
  twice, then none does after \<open>signup_for_activity\<close> or
  \<open>unregister_from_activity\<close>, whatever the call returned or raised.
\<close>

theorem no_dups_preserved:
  assumes "is_store (activities st)" and "no_dups (activities st)"
  shows "no_dups (activities (snd (signup_for_activity c e A E st))) \<and>
         no_dups (activities (snd (unregister_from_activity c e A E st)))"
proof
  show "no_dups (activities (snd (signup_for_activity c e A E st)))"
  proof (cases "A \<in> set (keys (activities st)) \<and> PStr E \<notin> set (roster (activities st) A)")
    case False
    then have "\<exists>err. signup_for_activity c e A E st = (Inl err, st)"
      using signup_refused[OF assms(1)] by blast
    then have "snd (signup_for_activity c e A E st) = st" by auto
    with assms(2) show ?thesis by simp
  next
    case True
    from signup_accepted[OF assms(1), of A E c e] True obtain acts where
      R: "snd (signup_for_activity c e A E st) = \<lparr>activities = acts, disk = snd (save_activities c e acts (disk st))\<rparr>"
      and k: "keys acts = keys (activities st)"
      and r: "roster acts A = roster (activities st) A @ [PStr E]"
      and o: "\<forall>B. B \<noteq> A \<longrightarrow> getitem acts B = getitem (activities st) B \<and> roster acts B = roster (activities st) B"
      by auto
    from assms(2) True have "distinct (roster (activities st) A)" by (simp add: no_dups_def list_all_iff)
    with True have "distinct (roster acts A)" by (simp add: r)
    with o assms(2) have "no_dups acts" unfolding no_dups_def list_all_iff k by metis
    then show ?thesis by (simp add: R)
  qed
  show "no_dups (activities (snd (unregister_from_activity c e A E st)))"
  proof (cases "A \<in> set (keys (activities st)) \<and> PStr E \<in> set (roster (activities st) A)")
    case False
    then have "\<exists>err. unregister_from_activity c e A E st = (Inl err, st)"
      using unregister_refused[OF assms(1)] by blast
    then have "snd (unregister_from_activity c e A E st) = st" by auto
    with assms(2) show ?thesis by simp
  next
    case True
    from unregister_accepted[OF assms(1), of A E c e] True obtain acts where
      R: "snd (unregister_from_activity c e A E st) = \<lparr>activities = acts, disk = snd (save_activities c e acts (disk st))\<rparr>"
      and k: "keys acts = keys (activities st)"
      and r: "roster acts A = remove1 (PStr E) (roster (activities st) A)"
      and o: "\<forall>B. B \<noteq> A \<longrightarrow> getitem acts B = getitem (activities st) B \<and> roster acts B = roster (activities st) B"
      by auto
    from assms(2) True have "distinct (roster (activities st) A)" by (simp add: no_dups_def list_all_iff)
    then have "distinct (roster acts A)" by (simp add: r)
    with o assms(2) have "no_dups acts" unfolding no_dups_def list_all_iff k by metis
    then show ?thesis by (simp add: R)
  qed
qed

theorem no_dups_preserved_witness:
  "is_store (activities \<lparr>activities = two_clubs, disk = new_disk\<rparr>) \<and>
   no_dups (activities \<lparr>activities = two_clubs, disk = new_disk\<rparr>) \<and>
   no_dups (activities (snd (signup_for_activity json calm ''Art Club'' ''new@mergington.edu''
          \<lparr>activities = two_clubs, disk = new_disk\<rparr>))) \<and>
   no_dups (activities (snd (unregister_from_activity json calm ''Art Club'' ''new@mergington.edu''
          \<lparr>activities = two_clubs, disk = new_disk\<rparr>)))"
  using no_dups_preserved [of "\<lparr>activities = two_clubs, disk = new_disk\<rparr>" json calm "''Art Club''" "''new@mergington.edu''"]
  by (simp add: two_clubs_store two_clubs_no_dups)

section \<open>The steps of \<open>save_activities\<close>\<close>

text \<open>Once the temporary file exists, \<open>save_activities\<close> takes one of three
  courses: the write is interrupted, the replace is refused, or both pass.\<close>

lemma save_run_created:
  assumes mk: "mkstemp e DATA_DIR ''activities'' ''.tmp'' s = Inr (tmp, s1)"
  shows "save_run c e data s =
     (case written e of
        Some n \<Rightarrow>
          (Inl OSError,
           [s1,
            s1\<lparr>files := (files s1)(tmp \<mapsto> take n (dumps c data)), oplog := oplog s1 @ [Write tmp]\<rparr>,
            (if remove_ok e
             then s1\<lparr>files := (files s1)(tmp := None), oplog := oplog s1 @ [Write tmp, Remove tmp]\<rparr>
             else s1\<lparr>files := (files s1)(tmp \<mapsto> take n (dumps c data)),
                     oplog := oplog s1 @ [Write tmp, Remove tmp]\<rparr>)])
      | None \<Rightarrow>
          (if replace_ok e
           then (Inr (),
                 [s1,
                  s1\<lparr>files := (files s1)(tmp \<mapsto> dumps c data), oplog := oplog s1 @ [Write tmp]\<rparr>,
                  s1\<lparr>files := (files s1)(ACTIVITIES_FILE \<mapsto> dumps c data, tmp := None),
                      oplog := oplog s1 @ [Write tmp, Replace tmp ACTIVITIES_FILE]\<rparr>,
                  s1\<lparr>files := (files s1)(ACTIVITIES_FILE \<mapsto> dumps c data, tmp := None),
                      oplog := oplog s1 @ [Write tmp, Replace tmp ACTIVITIES_FILE]\<rparr>])
           else (Inl OSError,
                 [s1,
                  s1\<lparr>files := (files s1)(tmp \<mapsto> dumps c data), oplog := oplog s1 @ [Write tmp]\<rparr>,
                  s1\<lparr>files := (files s1)(tmp \<mapsto> dumps c data), oplog := oplog s1 @ [Write tmp]\<rparr>,
                  (if remove_ok e
                   then s1\<lparr>files := (files s1)(tmp := None), oplog := oplog s1 @ [Write tmp, Remove tmp]\<rparr>
                   else s1\<lparr>files := (files s1)(tmp \<mapsto> dumps c data),
                           oplog := oplog s1 @ [Write tmp, Remove tmp]\<rparr>)])))"
proof -
  from mkstemp_not_canonical[OF mk] have ne: "tmp \<noteq> ACTIVITIES_FILE" .
  show ?thesis
  proof (cases "written e")
    case (Some n)
    then show ?thesis
      by (simp add: save_run_def mk write_dump_def cleanup_def)
  next
    case None
    then show ?thesis using ne
      by (simp add: save_run_def mk write_dump_def os_replace_def cleanup_def fun_upd_twist)
  qed
qed


text \<open>
  Claim C4, as amended. Once \<open>mkstemp\<close> has created the temporary file:
  it lies in the directory of the canonical file, is not the canonical file, and did
  not exist before; when the write is not interrupted it holds the serialisation of
  the whole data; after every step the canonical file holds either what it held
  before or the complete serialisation, never a part of it. When
  \<open>save_activities\<close> returns, only the canonical file has changed, no temporary
  file is left, and the calls made are \<open>mkstemp\<close>, the write and the replace: no
  removal. When it raises, the canonical file is as before and the removal of the
  temporary file is attempted once; the temporary file is gone exactly when that
  removal does not itself fail, since its \<open>OSError\<close> is swallowed.
\<close>

theorem save_steps:
  assumes "mkstemp e DATA_DIR ''activities'' ''.tmp'' s = Inr (tmp, s1)"
  shows "fst tmp = fst ACTIVITIES_FILE \<and> tmp \<noteq> ACTIVITIES_FILE \<and> files s tmp = None \<and>
         (written e = None \<longrightarrow> files (snd (save_run c e data s) ! 1) tmp = Some (dumps c data)) \<and>
         (\<forall>s' \<in> set (snd (save_run c e data s)).
             files s' ACTIVITIES_FILE = files s ACTIVITIES_FILE \<or>
             files s' ACTIVITIES_FILE = Some (dumps c data)) \<and>
         (fst (save_activities c e data s) = Inr () \<longrightarrow>
             snd (save_activities c e data s) =
               s\<lparr>files := (files s)(ACTIVITIES_FILE \<mapsto> dumps c data),
                  oplog := oplog s @ [Mkstemp tmp, Write tmp, Replace tmp ACTIVITIES_FILE]\<rparr>) \<and>
         (fst (save_activities c e data s) \<noteq> Inr () \<longrightarrow>
             files (snd (save_activities c e data s)) ACTIVITIES_FILE = files s ACTIVITIES_FILE \<and>
             oplog (snd (save_activities c e data s)) = oplog s @ [Mkstemp tmp, Write tmp, Remove tmp] \<and>
             (files (snd (save_activities c e data s)) tmp = None \<longleftrightarrow> remove_ok e))"
proof -
  from mkstemp_fresh[OF assms] have fresh: "files s tmp = None" and dir: "fst tmp = DATA_DIR"
    and s1: "s1 = s\<lparr>files := (files s)(tmp \<mapsto> []), oplog := oplog s @ [Mkstemp tmp]\<rparr>" by auto
  from mkstemp_not_canonical[OF assms] have ne: "tmp \<noteq> ACTIVITIES_FILE" .
  note run = save_run_created[OF assms, of c data]
  have a: "fst tmp = fst ACTIVITIES_FILE" using dir by (simp add: ACTIVITIES_FILE_def)
  have b: "written e = None \<longrightarrow> files (snd (save_run c e data s) ! 1) tmp = Some (dumps c data)"
    by (simp add: run)
  have c: "\<forall>s' \<in> set (snd (save_run c e data s)).
             files s' ACTIVITIES_FILE = files s ACTIVITIES_FILE \<or>
             files s' ACTIVITIES_FILE = Some (dumps c data)"
    using ne by (cases "written e") (auto simp: run s1)
  have fe: "(files s)(tmp \<mapsto> [], ACTIVITIES_FILE \<mapsto> dumps c data, tmp := None) =
            (files s)(ACTIVITIES_FILE \<mapsto> dumps c data)"
    using fresh ne by (auto simp: fun_eq_iff)
  have d: "fst (save_activities c e data s) = Inr () \<longrightarrow>
             snd (save_activities c e data s) =
               s\<lparr>files := (files s)(ACTIVITIES_FILE \<mapsto> dumps c data),
                  oplog := oplog s @ [Mkstemp tmp, Write tmp, Replace tmp ACTIVITIES_FILE]\<rparr>"
    using fe by (cases "written e") (simp_all add: save_activities_def run s1)
  have f: "fst (save_activities c e data s) \<noteq> Inr () \<longrightarrow>
             files (snd (save_activities c e data s)) ACTIVITIES_FILE = files s ACTIVITIES_FILE \<and>
             oplog (snd (save_activities c e data s)) = oplog s @ [Mkstemp tmp, Write tmp, Remove tmp] \<and>
             (files (snd (save_activities c e data s)) tmp = None \<longleftrightarrow> remove_ok e)"
    using ne by (cases "written e") (simp_all add: save_activities_def run s1)
  from a ne fresh b c d f show ?thesis by blast
qed

lemma calm_mkstemp:
  "mkstemp (calm\<lparr>written := w, replace_ok := r, remove_ok := m\<rparr>) DATA_DIR ''activities'' ''.tmp'' new_disk =
     Inr ((DATA_DIR, ''activitiesk3x9_q2a.tmp''),
          \<lparr>files = no_files((DATA_DIR, ''activitiesk3x9_q2a.tmp'') \<mapsto> []),
           oplog = [Mkstemp (DATA_DIR, ''activitiesk3x9_q2a.tmp'')]\<rparr>)"
  by (simp add: mkstemp_def calm_def new_disk_def no_files_def)

theorem save_steps_witness:
  "mkstemp (calm\<lparr>written := Some 0, replace_ok := True, remove_ok := True\<rparr>) DATA_DIR ''activities'' ''.tmp'' new_disk =
     Inr ((DATA_DIR, ''activitiesk3x9_q2a.tmp''),
          \<lparr>files = no_files((DATA_DIR, ''activitiesk3x9_q2a.tmp'') \<mapsto> []),
           oplog = [Mkstemp (DATA_DIR, ''activitiesk3x9_q2a.tmp'')]\<rparr>) \<and>
   fst (save_activities json (calm\<lparr>written := Some 0, replace_ok := True, remove_ok := True\<rparr>) two_clubs new_disk)
     \<noteq> Inr () \<and>
   remove_ok (calm\<lparr>written := Some 0, replace_ok := True, remove_ok := True\<rparr>) \<and>
   files (snd (save_activities json (calm\<lparr>written := Some 0, replace_ok := True, remove_ok := True\<rparr>)
                 two_clubs new_disk)) (DATA_DIR, ''activitiesk3x9_q2a.tmp'') = None \<and>
   oplog (snd (save_activities json (calm\<lparr>written := Some 0, replace_ok := True, remove_ok := True\<rparr>)
                 two_clubs new_disk)) =
     oplog new_disk @
     [Mkstemp (DATA_DIR, ''activitiesk3x9_q2a.tmp''), Write (DATA_DIR, ''activitiesk3x9_q2a.tmp''),
      Remove (DATA_DIR, ''activitiesk3x9_q2a.tmp'')] \<and>
   mkstemp (calm\<lparr>written := None, replace_ok := True, remove_ok := True\<rparr>) DATA_DIR ''activities'' ''.tmp'' new_disk =
     Inr ((DATA_DIR, ''activitiesk3x9_q2a.tmp''),
          \<lparr>files = no_files((DATA_DIR, ''activitiesk3x9_q2a.tmp'') \<mapsto> []),
           oplog = [Mkstemp (DATA_DIR, ''activitiesk3x9_q2a.tmp'')]\<rparr>) \<and>
   written (calm\<lparr>written := None, replace_ok := True, remove_ok := True\<rparr>) = None \<and>
   fst (save_activities json (calm\<lparr>written := None, replace_ok := True, remove_ok := True\<rparr>) two_clubs new_disk)
     = Inr () \<and>
   snd (save_activities json (calm\<lparr>written := None, replace_ok := True, remove_ok := True\<rparr>) two_clubs new_disk) =
     new_disk\<lparr>files := (files new_disk)(ACTIVITIES_FILE \<mapsto> dumps json two_clubs),
              oplog := oplog new_disk @
                [Mkstemp (DATA_DIR, ''activitiesk3x9_q2a.tmp''), Write (DATA_DIR, ''activitiesk3x9_q2a.tmp''),
                 Replace (DATA_DIR, ''activitiesk3x9_q2a.tmp'') ACTIVITIES_FILE]\<rparr>"
proof -
  let ?bad = "calm\<lparr>written := Some 0, replace_ok := True, remove_ok := True\<rparr>"
  let ?good = "calm\<lparr>written := None, replace_ok := True, remove_ok := True\<rparr>"
  have rm: "remove_ok ?bad" and wr: "written ?good = None" by simp_all
  have "\<not> save_ok ?bad new_disk" by (simp add: save_ok_def)
  then have bad: "fst (save_activities json ?bad two_clubs new_disk) \<noteq> Inr ()"
    by (simp add: save_ok_iff)
  have "save_ok ?good new_disk"
    by (simp add: save_ok_def calm_def new_disk_def no_files_def)
  then have good: "fst (save_activities json ?good two_clubs new_disk) = Inr ()"
    by (simp add: save_ok_iff)
  from save_steps [OF calm_mkstemp [where w = "Some 0" and r = True and m = True], of json two_clubs]
    save_steps [OF calm_mkstemp [where w = None and r = True and m = True], of json two_clubs]
    calm_mkstemp [where w = "Some 0" and r = True and m = True]
    calm_mkstemp [where w = None and r = True and m = True]
    rm wr bad good
  show ?thesis by blast
qed

text \<open>
  Claim C4 as stated fails where the removal fails too: the write is interrupted
  before its first character, \<open>os.remove\<close> raises, and the empty temporary file
  stays in the data directory.
\<close>

theorem save_leaves_temporary_file:
  "mkstemp (calm\<lparr>written := Some 0, replace_ok := True, remove_ok := False\<rparr>) DATA_DIR ''activities'' ''.tmp'' new_disk =
     Inr ((DATA_DIR, ''activitiesk3x9_q2a.tmp''),
          \<lparr>files = no_files((DATA_DIR, ''activitiesk3x9_q2a.tmp'') \<mapsto> []),
           oplog = [Mkstemp (DATA_DIR, ''activitiesk3x9_q2a.tmp'')]\<rparr>) \<and>
   fst (save_activities json (calm\<lparr>written := Some 0, replace_ok := True, remove_ok := False\<rparr>) two_clubs new_disk)
     = Inl OSError \<and>
   files (snd (save_activities json (calm\<lparr>written := Some 0, replace_ok := True, remove_ok := False\<rparr>)
                 two_clubs new_disk)) (DATA_DIR, ''activitiesk3x9_q2a.tmp'') = Some []"
  by (simp add: calm_mkstemp save_activities_def save_run_created [OF calm_mkstemp])

section \<open>Loading\<close>

lemma regenerate_cases:
  "regenerate c e s =
     (if save_ok e s then Inr default_activities else Inl OSError,
      snd (save_activities c e default_activities s))"
  unfolding regenerate_def by (subst save_cases) simp

lemma default_activities_store: "is_store default_activities"
  by (simp add: is_store_def default_activities_def is_activity_def has_field_def is_str_def is_int_def
      is_str_list_def)

lemma default_activities_len: "len default_activities = Inr 9"
  by (simp add: default_activities_def)

lemma default_activities_chess:
  "roster default_activities ''Chess Club'' = [PStr ''michael@mergington.edu'', PStr ''daniel@mergington.edu'']"
  by (simp add: roster_def participants_of_def field_of_def default_activities_def)

lemma json_loads_brackets: "json_loads ''[]'' = Some (PList [])"
  by (simp add: json_loads_def skip_ws_def is_ws_def)

lemma json_loads_braces: "json_loads ''{}'' = Some (PDict [])"
  by (simp add: json_loads_def skip_ws_def is_ws_def)

text \<open>
  Claim C3, as amended. When the canonical file exists, is read and parses,
  \<open>load_activities\<close> returns the parsed value, whatever its shape, and touches no
  file. When the file is absent, cannot be read or does not parse, it builds the
  defaults and saves them: if the save runs to its end the defaults are returned and
  the canonical file holds their serialisation (a corrupt file is overwritten); if the
  save raises, its \<open>OSError\<close> leaves \<open>load_activities\<close>. The defaults are a store
  of nine activity records, and their Chess Club has two participants.
\<close>

theorem load_outcomes:
  "(files s ACTIVITIES_FILE = Some txt \<and> read_ok e \<and> loads c txt = Some v \<longrightarrow>
      load_activities c e s = (Inr v, s)) \<and>
   (files s ACTIVITIES_FILE = None \<or> \<not> read_ok e \<or>
    (files s ACTIVITIES_FILE = Some txt \<and> loads c txt = None) \<longrightarrow>
      (save_ok e s \<longrightarrow>
         fst (load_activities c e s) = Inr default_activities \<and>
         files (snd (load_activities c e s)) = (files s)(ACTIVITIES_FILE \<mapsto> dumps c default_activities)) \<and>
      (\<not> save_ok e s \<longrightarrow> fst (load_activities c e s) = Inl OSError)) \<and>
   is_store default_activities \<and> len default_activities = Inr 9 \<and>
   length (roster default_activities ''Chess Club'') = 2"
proof -
  have a: "files s ACTIVITIES_FILE = Some txt \<and> read_ok e \<and> loads c txt = Some v \<longrightarrow>
      load_activities c e s = (Inr v, s)"
    by (simp add: load_activities_def)
  have "load_activities c e s = regenerate c e s"
    if "files s ACTIVITIES_FILE = None \<or> \<not> read_ok e \<or>
        (files s ACTIVITIES_FILE = Some txt \<and> loads c txt = None)"
    using that by (cases "files s ACTIVITIES_FILE") (auto simp: load_activities_def)
  then have b: "files s ACTIVITIES_FILE = None \<or> \<not> read_ok e \<or>
    (files s ACTIVITIES_FILE = Some txt \<and> loads c txt = None) \<longrightarrow>
      (save_ok e s \<longrightarrow>
         fst (load_activities c e s) = Inr default_activities \<and>
         files (snd (load_activities c e s)) = (files s)(ACTIVITIES_FILE \<mapsto> dumps c default_activities)) \<and>
      (\<not> save_ok e s \<longrightarrow> fst (load_activities c e s) = Inl OSError)"
    by (simp add: regenerate_cases save_ok_files)
  from a b default_activities_store default_activities_len default_activities_chess
  show ?thesis by simp
qed

theorem load_outcomes_witness:
  "files (new_disk\<lparr>files := no_files(ACTIVITIES_FILE \<mapsto> ''{}'')\<rparr>) ACTIVITIES_FILE = Some ''{}'' \<and>
   read_ok calm \<and> loads json ''{}'' = Some (PDict []) \<and>
   load_activities json calm (new_disk\<lparr>files := no_files(ACTIVITIES_FILE \<mapsto> ''{}'')\<rparr>) =
     (Inr (PDict []), new_disk\<lparr>files := no_files(ACTIVITIES_FILE \<mapsto> ''{}'')\<rparr>) \<and>
   files new_disk ACTIVITIES_FILE = None \<and> save_ok calm new_disk \<and>
   fst (load_activities json calm new_disk) = Inr default_activities \<and>
   files (snd (load_activities json calm new_disk)) ACTIVITIES_FILE = Some (dumps json default_activities) \<and>
   \<not> save_ok (calm\<lparr>mkstemp_ok := False\<rparr>) new_disk \<and>
   fst (load_activities json (calm\<lparr>mkstemp_ok := False\<rparr>) new_disk) = Inl OSError"
proof -
  have f: "files (new_disk\<lparr>files := no_files(ACTIVITIES_FILE \<mapsto> ''{}'')\<rparr>) ACTIVITIES_FILE = Some ''{}''"
    by simp
  have r: "read_ok calm" by (simp add: calm_def)
  have l: "loads json ''{}'' = Some (PDict [])" by (simp add: json_def json_loads_braces)
  have n: "files new_disk ACTIVITIES_FILE = None" by (simp add: new_disk_def no_files_def)
  have b: "\<not> save_ok (calm\<lparr>mkstemp_ok := False\<rparr>) new_disk" by (simp add: save_ok_def)
  from load_outcomes [of "new_disk\<lparr>files := no_files(ACTIVITIES_FILE \<mapsto> ''{}'')\<rparr>" "''{}''" calm json "PDict []"]
    load_outcomes [of new_disk "''{}''" calm json "PDict []"]
    load_outcomes [of new_disk "''{}''" "calm\<lparr>mkstemp_ok := False\<rparr>" json "PDict []"]
    f r l n b calm_new_disk
  show ?thesis by simp
qed

text \<open>
  Claim C3 as stated fails twice: with no canonical file and a data directory in which
  \<open>mkstemp\<close> raises, \<open>load_activities\<close> raises; and from a canonical file holding
  \<open>[]\<close>, which parses, it returns the empty list, which is no mapping.
\<close>

theorem load_raises_or_returns_list:
  "fst (load_activities json (calm\<lparr>mkstemp_ok := False\<rparr>) new_disk) = Inl OSError \<and>
   load_activities json calm (new_disk\<lparr>files := no_files(ACTIVITIES_FILE \<mapsto> ''[]'')\<rparr>) =
     (Inr (PList []), new_disk\<lparr>files := no_files(ACTIVITIES_FILE \<mapsto> ''[]'')\<rparr>) \<and>
   \<not> is_store (PList [])"
  by (simp add: load_activities_def regenerate_def save_activities_def save_run_def mkstemp_def
      new_disk_def no_files_def calm_def json_def json_loads_brackets is_store_def)

section \<open>Parsing what was serialised\<close>

text \<open>Strings: every escape is read back as the character it stands for.\<close>

lemma hex_val_digit: "n < 16 \<Longrightarrow> hex_val (hex_digit n) = Some n"
proof -
  assume "n < 16"
  then have "n \<in> {0,1,2,3,4,5,6,7,8,9,10,11,12,13,14,15}" by simp arith
  then show ?thesis
    by (auto simp: hex_val_def hex_digit_def)
qed

lemma parse_str_escape:
  "parse_str (escape_char ch @ s) = map_option (\<lambda>tr. (ch # fst tr, snd tr)) (parse_str s)"
proof (cases "(of_char ch :: nat) < 32")
  case False
  then show ?thesis by (auto simp: escape_char_def unescape_def)
next
  case True
  show ?thesis
  proof (cases "ch = CHR 0x0A \<or> ch = CHR 0x0D \<or> ch = CHR 0x09 \<or> ch = CHR 0x08 \<or> ch = CHR 0x0C")
    case True
    then show ?thesis by (auto simp: escape_char_def unescape_def)
  next
    case False
    from True have q: "ch \<noteq> CHR 0x22" "ch \<noteq> CHR 0x5C" by auto
    from True have d: "(of_char ch :: nat) div 16 < 16" "(of_char ch :: nat) mod 16 < 16" by auto
    have h: "hex4 [CHR ''0'', CHR ''0'', hex_digit (of_char ch div 16), hex_digit (of_char ch mod 16)]
              = Some (of_char ch)"
      using d by (simp add: hex4_def hex_val_digit) (simp add: hex_val_def)
    have lt: "\<not> 256 \<le> (of_char ch :: nat)" using True by simp
    show ?thesis using False q True lt
      by (simp add: escape_char_def h)
  qed
qed

lemma parse_str_dump:
  "parse_str (concat (map escape_char t) @ CHR 0x22 # rest) = Some (t, rest)"
proof (induction t)
  case Nil
  show ?case by simp
next
  case (Cons ch t)
  then show ?case by (simp add: parse_str_escape del: parse_str.simps(2))
qed

text \<open>Integers: the digits written are the digits read.\<close>

lemma digit_char:
  "(n::nat) < 10 \<Longrightarrow> is_digit (char_of (48 + n)) \<and> (of_char (char_of (48 + n)) :: nat) - 48 = n"
  by (simp add: is_digit_def)

lemma digits_not_empty: "digits n \<noteq> []"
  by (subst digits.simps) simp

lemma digits_all: "list_all is_digit (digits n)"
proof (induction n rule: digits.induct)
  case (1 n)
  show ?case
  proof (cases "n < 10")
    case True
    then show ?thesis by (subst digits.simps) (simp add: digit_char)
  next
    case False
    with 1 show ?thesis by (subst digits.simps) (simp add: digit_char)
  qed
qed

lemma nat_of_digits_snoc: "nat_of_digits (ds @ [ch]) = 10 * nat_of_digits ds + (of_char ch - 48)"
  by (simp add: nat_of_digits_def)

lemma nat_of_digits_digits: "nat_of_digits (digits n) = n"
proof (induction n rule: digits.induct)
  case (1 n)
  show ?case
  proof (cases "n < 10")
    case True
    then show ?thesis by (subst digits.simps) (simp add: nat_of_digits_def digit_char)
  next
    case False
    with 1 show ?thesis by (subst digits.simps) (simp add: nat_of_digits_snoc digit_char)
  qed
qed

lemma digits_no_leading_zero: "0 < n \<Longrightarrow> hd (digits n) \<noteq> CHR ''0''"
proof (induction n rule: digits.induct)
  case (1 n)
  show ?case
  proof (cases "n < 10")
    case True
    then have o: "(of_char (char_of (48 + n)) :: nat) = 48 + n" by simp
    have "char_of (48 + n) \<noteq> CHR ''0''"
    proof
      assume "char_of (48 + n) = CHR ''0''"
      then have "(of_char (char_of (48 + n)) :: nat) = of_char CHR ''0''" by simp
      with o 1(2) show False by simp
    qed
    with True show ?thesis by (subst digits.simps) simp
  next
    case False
    then have "0 < n div 10" by simp
    with 1(1) False have "hd (digits (n div 10)) \<noteq> CHR ''0''" by simp
    with False show ?thesis by (subst digits.simps) (simp add: digits_not_empty)
  qed
qed

lemma digits_length: "1 < length (digits n) \<Longrightarrow> 0 < n"
  by (subst (asm) digits.simps) (simp split: if_splits)

lemma number_end_takeWhile: "number_end s \<Longrightarrow> takeWhile is_digit s = [] \<and> dropWhile is_digit s = s"
  by (cases s) (simp_all add: number_end_def)

lemma takeWhile_digits:
  assumes "number_end rest"
  shows "takeWhile is_digit (digits n @ rest) = digits n" "dropWhile is_digit (digits n @ rest) = rest"
  using digits_all[of n] number_end_takeWhile[OF assms]
  by (simp_all add: list_all_iff takeWhile_append2 dropWhile_append2)

lemma number_end_hd: "number_end s \<Longrightarrow>
    s = [] \<or> hd s \<noteq> CHR ''.'' \<and> hd s \<noteq> CHR ''e'' \<and> hd s \<noteq> CHR ''E''"
  by (cases s) (simp_all add: number_end_def)

lemma hd_digits_digit: "is_digit (hd (digits n))"
  using digits_all[of n] digits_not_empty[of n] by (cases "digits n") simp_all

lemma parse_int_digits:
  assumes "number_end rest"
  shows "parse_int (digits n @ rest) = Some (PInt (int n), rest)"
proof -
  have nm: "hd (digits n @ rest) \<noteq> CHR ''-''"
    using hd_digits_digit[of n] digits_not_empty[of n] by (auto simp: is_digit_def)
  have lz: "\<not> (hd (digits n) = CHR ''0'' \<and> 1 < length (digits n))"
    using digits_no_leading_zero digits_length by blast
  show ?thesis
    using nm lz number_end_hd[OF assms]
    by (simp add: parse_int_def Let_def takeWhile_digits[OF assms] digits_not_empty nat_of_digits_digits)
qed

lemma parse_int_minus:
  assumes "number_end rest"
  shows "parse_int (CHR ''-'' # digits n @ rest) = Some (PInt (- int n), rest)"
proof -
  have lz: "\<not> (hd (digits n) = CHR ''0'' \<and> 1 < length (digits n))"
    using digits_no_leading_zero digits_length by blast
  show ?thesis
    using lz number_end_hd[OF assms]
    by (simp add: parse_int_def Let_def takeWhile_digits[OF assms] digits_not_empty nat_of_digits_digits)
qed

lemma parse_int_dump:
  assumes "number_end rest"
  shows "parse_int (dump_int i @ rest) = Some (PInt i, rest)"
  using parse_int_digits[OF assms, of "nat i"] parse_int_minus[OF assms, of "nat (- i)"]
  by (simp add: dump_int_def)

text \<open>Dictionaries with distinct keys, white space, and the first character of a value.\<close>

lemma update_fresh: "k \<notin> fst ` set al \<Longrightarrow> AList.update k v al = al @ [(k, v)]"
  by (induction al) auto

lemma fold_update_distinct:
  "distinct (map fst (acc @ ps)) \<Longrightarrow>
   fold (\<lambda>kv d. AList.update (fst kv) (snd kv) d) ps acc = acc @ ps"
proof (induction ps arbitrary: acc)
  case Nil
  show ?case by simp
next
  case (Cons p ps)
  from Cons.prems have "fst p \<notin> fst ` set acc" by auto
  then have "AList.update (fst p) (snd p) acc = acc @ [p]" by (simp add: update_fresh)
  moreover from Cons.prems have "distinct (map fst ((acc @ [p]) @ ps))" by simp
  ultimately show ?case using Cons.IH[of "acc @ [p]"] by simp
qed

lemma dict_of_distinct: "distinct (map fst ps) \<Longrightarrow> dict_of ps = ps"
  using fold_update_distinct[of "[]" ps] by (simp add: dict_of_def)

lemma skip_ws_indent: "skip_ws (newline_indent l @ s) = skip_ws s"
proof -
  have "dropWhile is_ws (replicate n CHR '' '' @ s) = dropWhile is_ws s" for n
    by (induction n) (simp_all add: is_ws_def)
  then show ?thesis by (simp add: skip_ws_def newline_indent_def is_ws_def)
qed

lemma skip_ws_start: "\<not> is_ws ch \<Longrightarrow> skip_ws (ch # s) = ch # s"
  by (simp add: skip_ws_def)

lemma number_end_indent: "number_end (newline_indent l @ s)"
  by (simp add: number_end_def newline_indent_def is_digit_def)

lemma dump_int_start:
  "\<exists>ch cs. dump_int i = ch # cs \<and> (ch = CHR ''-'' \<or> is_digit ch)"
proof (cases "i < 0")
  case True
  then show ?thesis by (simp add: dump_int_def)
next
  case False
  obtain ch cs where "digits (nat i) = ch # cs" using digits_not_empty by (cases "digits (nat i)") auto
  with hd_digits_digit[of "nat i"] False show ?thesis by (simp add: dump_int_def)
qed

text \<open>What a serialised value starts with: a character that is neither white space nor
  a closing bracket.\<close>

lemma dump_val_start:
  "\<exists>ch cs. dump_val lvl v = ch # cs \<and> \<not> is_ws ch \<and> ch \<noteq> CHR '']'' \<and> ch \<noteq> CHR ''}''"
proof (cases v)
  case (PInt i)
  from dump_int_start[of i] obtain ch cs where "dump_int i = ch # cs" "ch = CHR ''-'' \<or> is_digit ch"
    by blast
  with PInt show ?thesis by (auto simp: is_ws_def is_digit_def)
qed (auto simp: is_ws_def dump_str_def)

lemma skip_ws_value: "skip_ws (dump_val lvl v @ s) = dump_val lvl v @ s"
  using dump_val_start[of lvl v] by (auto simp: skip_ws_start)

lemma dump_str_parse:
  "dump_str k @ s = CHR 0x22 # (concat (map escape_char k) @ CHR 0x22 # s)"
  by (simp add: dump_str_def)

lemma parse_value_atoms:
  "parse_value (Suc m) (''null'' @ rest) = Some (PNone, rest)"
  "parse_value (Suc m) (''true'' @ rest) = Some (PBool True, rest)"
  "parse_value (Suc m) (''false'' @ rest) = Some (PBool False, rest)"
  "parse_value (Suc m) (dump_str t @ rest) = Some (PStr t, rest)"
  by (simp_all add: literal_def dump_str_def parse_str_dump)

lemma parse_value_int:
  assumes "number_end rest"
  shows "parse_value (Suc m) (dump_int i @ rest) = Some (PInt i, rest)"
proof -
  from dump_int_start[of i] obtain ch cs where s: "dump_int i = ch # cs" and c: "ch = CHR ''-'' \<or> is_digit ch"
    by blast
  from c have "ch \<noteq> CHR 0x22 \<and> ch \<noteq> CHR ''{'' \<and> ch \<noteq> CHR ''['' \<and> ch \<noteq> CHR ''n'' \<and> ch \<noteq> CHR ''t'' \<and> ch \<noteq> CHR ''f''"
    by (auto simp: is_digit_def)
  then have "parse_value (Suc m) (ch # cs @ rest) = parse_int (ch # cs @ rest)" by simp
  with s parse_int_dump[OF assms, of i] show ?thesis by simp
qed

lemma dump_val_length: "0 < length (dump_val lvl v)"
  using dump_val_start[of lvl v] by auto

text \<open>Values, by the recursion of the serialiser: a value with distinct keys is read
  back from its text, at any indentation, before any text that ends a number, with a
  budget of at least the length of the text.\<close>

lemma parse_dump:
  "\<forall>n rest. wf_py v \<longrightarrow> length (dump_val lvl v) \<le> n \<longrightarrow> number_end rest \<longrightarrow>
      parse_value n (dump_val lvl v @ rest) = Some (v, rest)"
  "\<forall>n l rest. xs \<noteq> [] \<longrightarrow> wf_items xs \<longrightarrow> length (dump_items lvl xs) \<le> n \<longrightarrow>
      parse_elems n (skip_ws (dump_items lvl xs @ newline_indent l @ CHR '']'' # rest)) = Some (xs, rest)"
  "\<forall>n l rest. kvs \<noteq> [] \<longrightarrow> wf_pairs kvs \<longrightarrow> length (dump_pairs lvl kvs) \<le> n \<longrightarrow>
      parse_members n (skip_ws (dump_pairs lvl kvs @ newline_indent l @ CHR ''}'' # rest)) = Some (kvs, rest)"
proof (induction lvl v and lvl xs and lvl kvs rule: dump_val_dump_items_dump_pairs.induct)
  case (1 lvl)
  show ?case
  proof (intro allI impI)
    fix n rest assume "length (dump_val lvl PNone) \<le> n"
    then obtain m where "n = Suc m" by (cases n) auto
    then show "parse_value n (dump_val lvl PNone @ rest) = Some (PNone, rest)"
      using parse_value_atoms(1) by simp
  qed
next
  case (2 lvl b)
  show ?case
  proof (intro allI impI)
    fix n rest assume "length (dump_val lvl (PBool b)) \<le> n"
    then obtain m where "n = Suc m" by (cases n) (auto split: if_splits)
    then show "parse_value n (dump_val lvl (PBool b) @ rest) = Some (PBool b, rest)"
      using parse_value_atoms(2,3) by (cases b) simp_all
  qed
next
  case (3 lvl i)
  show ?case
  proof (intro allI impI)
    fix n rest assume "length (dump_val lvl (PInt i)) \<le> n" and e: "number_end rest"
    with dump_val_length[of lvl "PInt i"] obtain m where "n = Suc m" by (cases n) auto
    then show "parse_value n (dump_val lvl (PInt i) @ rest) = Some (PInt i, rest)"
      using parse_value_int[OF e] by simp
  qed
next
  case (4 lvl t)
  show ?case
  proof (intro allI impI)
    fix n rest assume "length (dump_val lvl (PStr t)) \<le> n"
    with dump_val_length[of lvl "PStr t"] obtain m where "n = Suc m" by (cases n) auto
    then show "parse_value n (dump_val lvl (PStr t) @ rest) = Some (PStr t, rest)"
      using parse_value_atoms(4) by simp
  qed
next
  case (5 lvl xs)
  show ?case
  proof (intro allI impI)
    fix n rest assume wf: "wf_py (PList xs)" and len: "length (dump_val lvl (PList xs)) \<le> n"
    from len dump_val_length[of lvl "PList xs"] obtain m where n: "n = Suc m" by (cases n) auto
    show "parse_value n (dump_val lvl (PList xs) @ rest) = Some (PList xs, rest)"
    proof (cases "xs = []")
      case True
      then show ?thesis by (simp add: n skip_ws_def is_ws_def)
    next
      case False
      let ?s = "skip_ws (dump_items (Suc lvl) xs @ newline_indent lvl @ CHR '']'' # rest)"
      from False obtain x xs' where xs: "xs = x # xs'" by (cases xs) auto
      from dump_val_start[of "Suc lvl" x] obtain ch cs where
        st: "dump_val (Suc lvl) x = ch # cs" "ch \<noteq> CHR '']''" by blast
      have "?s = dump_val (Suc lvl) x @ (if xs' = [] then [] else '','') @ dump_items (Suc lvl) xs'
                  @ newline_indent lvl @ CHR '']'' # rest"
        by (simp add: xs skip_ws_indent skip_ws_value)
      with st obtain cs' where s: "?s = ch # cs'" by simp
      from len n False have "length (dump_items (Suc lvl) xs) \<le> m" by simp
      with 5[OF False] False wf have "parse_elems m ?s = Some (xs, rest)" by simp
      with s st(2) False show ?thesis by (simp add: n)
    qed
  qed
next
  case (6 lvl kvs)
  show ?case
  proof (intro allI impI)
    fix n rest assume wf: "wf_py (PDict kvs)" and len: "length (dump_val lvl (PDict kvs)) \<le> n"
    from len dump_val_length[of lvl "PDict kvs"] obtain m where n: "n = Suc m" by (cases n) auto
    show "parse_value n (dump_val lvl (PDict kvs) @ rest) = Some (PDict kvs, rest)"
    proof (cases "kvs = []")
      case True
      then show ?thesis by (simp add: n skip_ws_def is_ws_def)
    next
      case False
      let ?s = "skip_ws (dump_pairs (Suc lvl) kvs @ newline_indent lvl @ CHR ''}'' # rest)"
      from False obtain kv kvs' where kvs: "kvs = kv # kvs'" by (cases kvs) auto
      have "?s = dump_str (fst kv) @ '': '' @ dump_val (Suc lvl) (snd kv) @ (if kvs' = [] then [] else '','')
                  @ dump_pairs (Suc lvl) kvs' @ newline_indent lvl @ CHR ''}'' # rest"
        by (simp add: kvs skip_ws_indent dump_str_def skip_ws_start is_ws_def)
      then obtain cs' where s: "?s = CHR 0x22 # cs'" by (simp add: dump_str_def)
      from len n False have "length (dump_pairs (Suc lvl) kvs) \<le> m" by simp
      with 6[OF False] False wf have "parse_members m ?s = Some (kvs, rest)" by simp
      moreover from wf have "dict_of kvs = kvs" by (simp add: dict_of_distinct)
      ultimately show ?thesis using s False by (simp add: n)
    qed
  qed
next
  case (7 lvl)
  show ?case by simp
next
  case (8 lvl x xs)
  show ?case
  proof (intro allI impI)
    fix n l rest
    assume wf: "wf_items (x # xs)" and len: "length (dump_items lvl (x # xs)) \<le> n"
    let ?tail = "(if xs = [] then [] else '','') @ dump_items lvl xs @ newline_indent l @ CHR '']'' # rest"
    have sk: "skip_ws (dump_items lvl (x # xs) @ newline_indent l @ CHR '']'' # rest) = dump_val lvl x @ ?tail"
      by (simp add: skip_ws_indent skip_ws_value)
    from len obtain m where n: "n = Suc m" and lx: "length (dump_val lvl x) \<le> m"
      and lxs: "length (dump_items lvl xs) \<le> m"
      by (cases n) (auto simp: newline_indent_def)
    have ne: "number_end ?tail" by (simp add: number_end_indent) (simp add: number_end_def is_digit_def)
    from 8(1) wf lx ne have pv: "parse_value m (dump_val lvl x @ ?tail) = Some (x, ?tail)" by simp
    show "parse_elems n (skip_ws (dump_items lvl (x # xs) @ newline_indent l @ CHR '']'' # rest)) =
            Some (x # xs, rest)"
    proof (cases "xs = []")
      case True
      have "skip_ws ?tail = CHR '']'' # rest"
        using True by (simp add: skip_ws_indent skip_ws_start is_ws_def)
      with pv True show ?thesis unfolding sk n by simp
    next
      case False
      have t: "skip_ws ?tail = CHR '','' # dump_items lvl xs @ newline_indent l @ CHR '']'' # rest"
        using False by (simp add: skip_ws_start is_ws_def)
      from 8(2) False wf lxs
      have "parse_elems m (skip_ws (dump_items lvl xs @ newline_indent l @ CHR '']'' # rest)) = Some (xs, rest)"
        by simp
      with pv t show ?thesis unfolding sk n by simp
    qed
  qed
next
  case (9 lvl)
  show ?case by simp
next
  case (10 lvl kv kvs)
  show ?case
  proof (intro allI impI)
    fix n l rest
    assume wf: "wf_pairs (kv # kvs)" and len: "length (dump_pairs lvl (kv # kvs)) \<le> n"
    let ?tail = "(if kvs = [] then [] else '','') @ dump_pairs lvl kvs @ newline_indent l @ CHR ''}'' # rest"
    let ?val = "dump_val lvl (snd kv) @ ?tail"
    have sk: "skip_ws (dump_pairs lvl (kv # kvs) @ newline_indent l @ CHR ''}'' # rest) =
                CHR 0x22 # (concat (map escape_char (fst kv)) @ CHR 0x22 # CHR '':'' # CHR '' '' # ?val)"
      by (simp add: skip_ws_indent dump_str_def skip_ws_start is_ws_def)
    from len obtain m where n: "n = Suc m" and lx: "length (dump_val lvl (snd kv)) \<le> m"
      and lxs: "length (dump_pairs lvl kvs) \<le> m"
      by (cases n) (auto simp: newline_indent_def)
    have ne: "number_end ?tail" by (simp add: number_end_indent) (simp add: number_end_def is_digit_def)
    from 10(1) wf lx ne have pv: "parse_value m ?val = Some (snd kv, ?tail)" by simp
    have c1: "skip_ws (CHR '':'' # s) = CHR '':'' # s" for s
      by (simp add: skip_ws_start is_ws_def)
    have c2: "skip_ws (CHR '' '' # dump_val lvl (snd kv) @ s) = dump_val lvl (snd kv) @ s" for s
      using skip_ws_value[of lvl "snd kv" s] by (simp add: skip_ws_def is_ws_def)
    show "parse_members n (skip_ws (dump_pairs lvl (kv # kvs) @ newline_indent l @ CHR ''}'' # rest)) =
            Some (kv # kvs, rest)"
    proof (cases "kvs = []")
      case True
      have "skip_ws ?tail = CHR ''}'' # rest"
        using True by (simp add: skip_ws_indent skip_ws_start is_ws_def)
      with pv True show ?thesis unfolding sk n by (simp add: parse_str_dump c1 c2 del: parse_str.simps)
    next
      case False
      have t: "skip_ws ?tail = CHR '','' # dump_pairs lvl kvs @ newline_indent l @ CHR ''}'' # rest"
        using False by (simp add: skip_ws_start is_ws_def)
      from 10(2) False wf lxs
      have "parse_members m (skip_ws (dump_pairs lvl kvs @ newline_indent l @ CHR ''}'' # rest)) = Some (kvs, rest)"
        by simp
      with pv t show ?thesis unfolding sk n by (simp add: parse_str_dump c1 c2 del: parse_str.simps)
    qed
  qed
qed

text \<open>The whole text: what \<open>json\<close> serialises it parses back, for every value whose
  dictionaries have distinct keys; the stores of activity records are such values.\<close>

lemma json_round_trip:
  assumes "wf_py v"
  shows "json_loads (json_dumps v) = Some v"
proof -
  have "number_end []" by (simp add: number_end_def)
  with parse_dump(1)[rule_format, of v 0 "Suc (length (dump_val 0 v))" "[]"] assms
  have p: "parse_value (Suc (length (dump_val 0 v))) (dump_val 0 v) = Some (v, [])"
    by (simp del: parse_value.simps)
  have s: "skip_ws (dump_val 0 v) = dump_val 0 v"
    using skip_ws_value[of 0 v "[]"] by simp
  have e: "skip_ws [] = []" by (simp add: skip_ws_def)
  show ?thesis
    by (simp add: json_loads_def json_dumps_def s p e del: parse_value.simps)
qed

lemma wf_items_strs: "list_all is_str xs \<Longrightarrow> wf_items xs"
proof (induction xs)
  case Nil
  show ?case by simp
next
  case (Cons x xs)
  then show ?case by (cases x) (simp_all add: is_str_def)
qed

lemma wf_pairs_all: "(\<And>kv. kv \<in> set kvs \<Longrightarrow> wf_py (snd kv)) \<Longrightarrow> wf_pairs kvs"
  by (induction kvs) simp_all

lemma four_keys:
  assumes d: "distinct (map fst flds)" and l: "length flds = 4"
    and k: "{a, b, c, d'} \<subseteq> fst ` set flds" and ne: "card {a, b, c, d'} = 4"
  shows "fst ` set flds = {a, b, c, d'}"
proof -
  from d l have "card (fst ` set flds) = 4" using distinct_card[of "map fst flds"] by simp
  with k ne show ?thesis by (metis card_subset_eq finite_imageI finite_set)
qed

lemma has_field_key: "has_field ty flds k \<Longrightarrow> k \<in> fst ` set flds"
  by (cases "map_of flds k") (auto simp: has_field_def dest: map_of_SomeD intro: rev_image_eqI)

lemma has_field_value:
  "distinct (map fst flds) \<Longrightarrow> (k, v) \<in> set flds \<Longrightarrow> has_field ty flds k \<Longrightarrow> ty v"
  by (simp add: has_field_def)

lemma is_activity_wf:
  assumes "is_activity a"
  shows "wf_py a"
proof (cases a)
  case (PDict flds)
  with assms have d: "distinct (map fst flds)" and l: "length flds = 4"
    and f1: "has_field is_str flds ''description''" and f2: "has_field is_str flds ''schedule''"
    and f3: "has_field is_int flds ''max_participants''"
    and f4: "has_field is_str_list flds ''participants''"
    by (simp_all add: is_activity_def)
  have "card {''description'', ''schedule'', ''max_participants'', ''participants''} = 4" by simp
  with four_keys[OF d l] f1 f2 f3 f4
  have ks: "fst ` set flds = {''description'', ''schedule'', ''max_participants'', ''participants''}"
    by (simp add: has_field_key)
  have "wf_py (snd kv)" if "kv \<in> set flds" for kv
  proof -
    obtain k v where kv: "kv = (k, v)" by (cases kv)
    with that ks have "k \<in> {''description'', ''schedule'', ''max_participants'', ''participants''}"
      by (metis fst_conv image_eqI)
    moreover have "ty v" if "has_field ty flds k" for ty
      using has_field_value[OF d _ that, of v] \<open>kv \<in> set flds\<close> kv by simp
    ultimately consider "is_str v" | "is_int v" | "is_str_list v"
      using f1 f2 f3 f4 by auto
    then have "wf_py v"
    proof cases
      case 1 then show ?thesis by (cases v) (simp_all add: is_str_def)
    next
      case 2 then show ?thesis by (cases v) (simp_all add: is_int_def)
    next
      case 3 then show ?thesis by (cases v) (simp_all add: is_str_list_def wf_items_strs)
    qed
    with kv show ?thesis by simp
  qed
  then have "wf_pairs flds" by (rule wf_pairs_all)
  with d PDict show ?thesis by simp
qed (use assms in \<open>simp_all add: is_activity_def\<close>)

lemma is_store_wf:
  assumes "is_store v"
  shows "wf_py v"
proof -
  from assms obtain kvs where v: "v = PDict kvs" and d: "distinct (map fst kvs)"
    and all: "list_all (\<lambda>kv. is_activity (snd kv)) kvs"
    by (cases v) (simp_all add: is_store_def)
  have "wf_pairs kvs"
  proof (rule wf_pairs_all)
    fix kv assume "kv \<in> set kvs"
    with all have "is_activity (snd kv)" by (simp add: list_all_iff)
    then show "wf_py (snd kv)" by (rule is_activity_wf)
  qed
  with v d show ?thesis by simp
qed

section \<open>Saving, then loading\<close>

lemma load_parsed:
  assumes "files s ACTIVITIES_FILE = Some (dumps c v)" and "loads c (dumps c v) = Some v" and "read_ok e"
  shows "load_activities c e s = (Inr v, s)"
  using assms by (simp add: load_activities_def)

lemma load_unread:
  assumes "\<not> read_ok e"
  shows "load_activities c e s = regenerate c e s"
  using assms by (cases "files s ACTIVITIES_FILE") (simp_all add: load_activities_def)

lemma load_unread_cases:
  assumes "\<not> read_ok e"
  shows "load_activities c e s =
     (if save_ok e s then Inr default_activities else Inl OSError,
      snd (save_activities c e default_activities s))"
  using assms by (simp add: load_unread regenerate_cases)

lemma json_loads_dumps: "wf_py v \<Longrightarrow> loads json (dumps json v) = Some v"
  by (simp add: json_def json_round_trip)

lemma default_activities_differ: "default_activities \<noteq> two_clubs"
  by (simp add: default_activities_def two_clubs_def)

lemma save_two_clubs:
  "fst (save_activities c calm two_clubs new_disk) = Inr ()"
  "files (snd (save_activities c calm two_clubs new_disk)) = no_files(ACTIVITIES_FILE \<mapsto> dumps c two_clubs)"
  using calm_new_disk by (simp_all add: save_ok_iff save_ok_files) (simp add: new_disk_def)

lemma save_ok_over_file:
  "files s = no_files(ACTIVITIES_FILE \<mapsto> txt) \<Longrightarrow> save_ok (calm\<lparr>read_ok := r\<rparr>) s"
  by (simp add: save_ok_def calm_def no_files_def ACTIVITIES_FILE_def)

text \<open>
  Claim C5, as amended. For every store of activity records (string description and
  schedule, integer capacity, list of string participants, under distinct names) on
  which \<open>save_activities\<close> returns: when the file is then opened and read without
  an error, \<open>load_activities\<close> returns the very store that was saved and changes no
  file; when opening or reading raises, the \<open>except\<close> branch runs instead, and
  \<open>load_activities\<close> returns the defaults and overwrites the saved file with them,
  or raises when saving the defaults fails.
\<close>

theorem save_then_load:
  assumes "is_store v" and "fst (save_activities json e v s) = Inr ()"
  shows "(read_ok e' \<longrightarrow>
            load_activities json e' (snd (save_activities json e v s)) =
              (Inr v, snd (save_activities json e v s))) \<and>
         (\<not> read_ok e' \<and> save_ok e' (snd (save_activities json e v s)) \<longrightarrow>
            fst (load_activities json e' (snd (save_activities json e v s))) = Inr default_activities \<and>
            files (snd (load_activities json e' (snd (save_activities json e v s)))) ACTIVITIES_FILE =
              Some (dumps json default_activities)) \<and>
         (\<not> read_ok e' \<and> \<not> save_ok e' (snd (save_activities json e v s)) \<longrightarrow>
            fst (load_activities json e' (snd (save_activities json e v s))) = Inl OSError)"
proof -
  let ?s' = "snd (save_activities json e v s)"
  from assms(2) have "save_ok e s" by (simp add: save_ok_iff)
  then have f: "files ?s' ACTIVITIES_FILE = Some (dumps json v)" by (simp add: save_ok_files)
  from assms(1) have r: "loads json (dumps json v) = Some v"
    by (simp add: json_loads_dumps is_store_wf)
  have a: "read_ok e' \<longrightarrow> load_activities json e' ?s' = (Inr v, ?s')"
    using load_parsed[OF f r] by blast
  have b: "\<not> read_ok e' \<and> save_ok e' ?s' \<longrightarrow>
            fst (load_activities json e' ?s') = Inr default_activities \<and>
            files (snd (load_activities json e' ?s')) ACTIVITIES_FILE = Some (dumps json default_activities)"
    by (simp add: load_unread_cases save_ok_files)
  have c: "\<not> read_ok e' \<and> \<not> save_ok e' ?s' \<longrightarrow> fst (load_activities json e' ?s') = Inl OSError"
    by (simp add: load_unread_cases)
  from a b c show ?thesis by blast
qed

theorem save_then_load_witness:
  "is_store two_clubs \<and> fst (save_activities json calm two_clubs new_disk) = Inr () \<and> read_ok calm \<and>
   fst (load_activities json calm (snd (save_activities json calm two_clubs new_disk))) = Inr two_clubs \<and>
   \<not> read_ok (calm\<lparr>read_ok := False\<rparr>) \<and>
   save_ok (calm\<lparr>read_ok := False\<rparr>) (snd (save_activities json calm two_clubs new_disk)) \<and>
   fst (load_activities json (calm\<lparr>read_ok := False\<rparr>) (snd (save_activities json calm two_clubs new_disk))) =
     Inr default_activities \<and>
   \<not> save_ok (calm\<lparr>read_ok := False, mkstemp_ok := False\<rparr>) (snd (save_activities json calm two_clubs new_disk)) \<and>
   fst (load_activities json (calm\<lparr>read_ok := False, mkstemp_ok := False\<rparr>)
          (snd (save_activities json calm two_clubs new_disk))) = Inl OSError"
proof -
  have r: "read_ok calm" by (simp add: calm_def)
  have n: "\<not> read_ok (calm\<lparr>read_ok := False\<rparr>)" "\<not> read_ok (calm\<lparr>read_ok := False, mkstemp_ok := False\<rparr>)"
    by simp_all
  have k: "save_ok (calm\<lparr>read_ok := False\<rparr>) (snd (save_activities json calm two_clubs new_disk))"
    using save_two_clubs(2) by (rule save_ok_over_file)
  have b: "\<not> save_ok (calm\<lparr>read_ok := False, mkstemp_ok := False\<rparr>) (snd (save_activities json calm two_clubs new_disk))"
    by (simp add: save_ok_def)
  from save_then_load [OF two_clubs_store save_two_clubs(1), of calm]
    save_then_load [OF two_clubs_store save_two_clubs(1), of "calm\<lparr>read_ok := False\<rparr>"]
    save_then_load [OF two_clubs_store save_two_clubs(1), of "calm\<lparr>read_ok := False, mkstemp_ok := False\<rparr>"]
    two_clubs_store save_two_clubs(1) r n k b
  show ?thesis by simp
qed

text \<open>
  Claim C5 as stated fails at a read error: the save of a store of two activities
  returns, opening the file raises, and \<open>load_activities\<close> returns the nine
  defaults, another mapping.
\<close>

theorem load_after_read_error:
  "is_store two_clubs \<and>
   fst (save_activities json calm two_clubs new_disk) = Inr () \<and>
   fst (load_activities json (calm\<lparr>read_ok := False\<rparr>) (snd (save_activities json calm two_clubs new_disk))) =
     Inr default_activities \<and>
   default_activities \<noteq> two_clubs"
proof -
  have "save_ok (calm\<lparr>read_ok := False\<rparr>) (snd (save_activities json calm two_clubs new_disk))"
    using save_two_clubs(2) by (rule save_ok_over_file)
  then have "fst (load_activities json (calm\<lparr>read_ok := False\<rparr>)
                (snd (save_activities json calm two_clubs new_disk))) = Inr default_activities"
    by (simp add: load_unread_cases)
  with two_clubs_store save_two_clubs(1) default_activities_differ show ?thesis by simp
qed


text \<open>
  Claim C7, as amended. When the canonical file holds the serialisation of the store
  in memory: if it is opened and read without an error, \<open>reload_activities\<close> leaves
  the state as it is, store and files, and returns the number of activities of that
  store as \<open>count\<close>; if opening or reading raises, the store in memory becomes the
  defaults, the file is overwritten with them and the count returned is 9, or, when
  saving the defaults fails, the call raises and the store in memory stays.
\<close>

theorem reload_outcomes:
  assumes "is_store (activities st)"
    and "files (disk st) ACTIVITIES_FILE = Some (dumps json (activities st))"
  shows "(read_ok e \<longrightarrow>
            reload_activities json e st =
              (Inr (PDict [(''message'', PStr ''Activities reloaded''),
                           (''count'', PInt (int (length (keys (activities st)))))]), st)) \<and>
         (\<not> read_ok e \<and> save_ok e (disk st) \<longrightarrow>
            fst (reload_activities json e st) =
              Inr (PDict [(''message'', PStr ''Activities reloaded''), (''count'', PInt 9)]) \<and>
            activities (snd (reload_activities json e st)) = default_activities \<and>
            files (disk (snd (reload_activities json e st))) ACTIVITIES_FILE =
              Some (dumps json default_activities)) \<and>
         (\<not> read_ok e \<and> \<not> save_ok e (disk st) \<longrightarrow>
            fst (reload_activities json e st) = Inl OSError \<and>
            activities (snd (reload_activities json e st)) = activities st)"
proof -
  from assms(1) have r: "loads json (dumps json (activities st)) = Some (activities st)"
    by (simp add: json_loads_dumps is_store_wf)
  from is_store_dict[OF assms(1)] obtain kvs where "activities st = PDict kvs" "keys (activities st) = map fst kvs"
    by blast
  then have n: "len (activities st) = Inr (length (keys (activities st)))" by simp
  have a: "read_ok e \<longrightarrow>
            reload_activities json e st =
              (Inr (PDict [(''message'', PStr ''Activities reloaded''),
                           (''count'', PInt (int (length (keys (activities st)))))]), st)"
  proof
    assume "read_ok e"
    with assms(2) r have "load_activities json e (disk st) = (Inr (activities st), disk st)"
      by (rule load_parsed)
    with n show "reload_activities json e st =
              (Inr (PDict [(''message'', PStr ''Activities reloaded''),
                           (''count'', PInt (int (length (keys (activities st)))))]), st)"
      by (simp add: reload_activities_def)
  qed
  have b: "\<not> read_ok e \<and> save_ok e (disk st) \<longrightarrow>
            fst (reload_activities json e st) =
              Inr (PDict [(''message'', PStr ''Activities reloaded''), (''count'', PInt 9)]) \<and>
            activities (snd (reload_activities json e st)) = default_activities \<and>
            files (disk (snd (reload_activities json e st))) ACTIVITIES_FILE =
              Some (dumps json default_activities)"
    by (simp add: reload_activities_def load_unread_cases default_activities_len save_ok_files)
  have c: "\<not> read_ok e \<and> \<not> save_ok e (disk st) \<longrightarrow>
            fst (reload_activities json e st) = Inl OSError \<and>
            activities (snd (reload_activities json e st)) = activities st"
    by (simp add: reload_activities_def load_unread_cases)
  from a b c show ?thesis by blast
qed

lemma two_clubs_on_disk:
  "files (disk \<lparr>activities = two_clubs,
                disk = new_disk\<lparr>files := no_files(ACTIVITIES_FILE \<mapsto> dumps json two_clubs)\<rparr>\<rparr>) ACTIVITIES_FILE =
     Some (dumps json two_clubs)"
  "save_ok (calm\<lparr>read_ok := False\<rparr>)
     (disk \<lparr>activities = two_clubs,
            disk = new_disk\<lparr>files := no_files(ACTIVITIES_FILE \<mapsto> dumps json two_clubs)\<rparr>\<rparr>)"
  by (simp_all add: save_ok_over_file)

theorem reload_outcomes_witness:
  "is_store (activities \<lparr>activities = two_clubs,
                         disk = new_disk\<lparr>files := no_files(ACTIVITIES_FILE \<mapsto> dumps json two_clubs)\<rparr>\<rparr>) \<and>
   files (disk \<lparr>activities = two_clubs,
                disk = new_disk\<lparr>files := no_files(ACTIVITIES_FILE \<mapsto> dumps json two_clubs)\<rparr>\<rparr>) ACTIVITIES_FILE =
     Some (dumps json two_clubs) \<and>
   read_ok calm \<and>
   reload_activities json calm
     \<lparr>activities = two_clubs,
      disk = new_disk\<lparr>files := no_files(ACTIVITIES_FILE \<mapsto> dumps json two_clubs)\<rparr>\<rparr> =
     (Inr (PDict [(''message'', PStr ''Activities reloaded''), (''count'', PInt 2)]),
      \<lparr>activities = two_clubs,
       disk = new_disk\<lparr>files := no_files(ACTIVITIES_FILE \<mapsto> dumps json two_clubs)\<rparr>\<rparr>) \<and>
   \<not> read_ok (calm\<lparr>read_ok := False\<rparr>) \<and>
   save_ok (calm\<lparr>read_ok := False\<rparr>)
     (disk \<lparr>activities = two_clubs,
            disk = new_disk\<lparr>files := no_files(ACTIVITIES_FILE \<mapsto> dumps json two_clubs)\<rparr>\<rparr>) \<and>
   activities (snd (reload_activities json (calm\<lparr>read_ok := False\<rparr>)
     \<lparr>activities = two_clubs,
      disk = new_disk\<lparr>files := no_files(ACTIVITIES_FILE \<mapsto> dumps json two_clubs)\<rparr>\<rparr>)) = default_activities \<and>
   \<not> save_ok (calm\<lparr>read_ok := False, mkstemp_ok := False\<rparr>)
     (disk \<lparr>activities = two_clubs,
            disk = new_disk\<lparr>files := no_files(ACTIVITIES_FILE \<mapsto> dumps json two_clubs)\<rparr>\<rparr>) \<and>
   fst (reload_activities json (calm\<lparr>read_ok := False, mkstemp_ok := False\<rparr>)
     \<lparr>activities = two_clubs,
      disk = new_disk\<lparr>files := no_files(ACTIVITIES_FILE \<mapsto> dumps json two_clubs)\<rparr>\<rparr>) = Inl OSError"
proof -
  let ?st = "\<lparr>activities = two_clubs,
      disk = new_disk\<lparr>files := no_files(ACTIVITIES_FILE \<mapsto> dumps json two_clubs)\<rparr>\<rparr>"
  have s: "is_store (activities ?st)" by (simp add: two_clubs_store)
  have r: "read_ok calm" by (simp add: calm_def)
  have n: "\<not> read_ok (calm\<lparr>read_ok := False\<rparr>)" "\<not> read_ok (calm\<lparr>read_ok := False, mkstemp_ok := False\<rparr>)"
    by simp_all
  have b: "\<not> save_ok (calm\<lparr>read_ok := False, mkstemp_ok := False\<rparr>) (disk ?st)"
    by (simp add: save_ok_def)
  from reload_outcomes [of ?st calm]
    reload_outcomes [of ?st "calm\<lparr>read_ok := False\<rparr>"]
    reload_outcomes [of ?st "calm\<lparr>read_ok := False, mkstemp_ok := False\<rparr>"]
    s two_clubs_on_disk r n b two_clubs_keys
  show ?thesis by simp
qed

text \<open>
  Claim C7 as stated fails at a read error: the file holds the serialisation of the
  store of two activities in memory, opening it raises, and \<open>reload_activities\<close>
  returns the count 9 and leaves the defaults in memory.
\<close>

theorem reload_after_read_error:
  "is_store two_clubs \<and>
   files (disk \<lparr>activities = two_clubs,
                disk = new_disk\<lparr>files := no_files(ACTIVITIES_FILE \<mapsto> dumps json two_clubs)\<rparr>\<rparr>) ACTIVITIES_FILE =
     Some (dumps json two_clubs) \<and>
   fst (reload_activities json (calm\<lparr>read_ok := False\<rparr>)
     \<lparr>activities = two_clubs,
      disk = new_disk\<lparr>files := no_files(ACTIVITIES_FILE \<mapsto> dumps json two_clubs)\<rparr>\<rparr>) =
     Inr (PDict [(''message'', PStr ''Activities reloaded''), (''count'', PInt 9)]) \<and>
   activities (snd (reload_activities json (calm\<lparr>read_ok := False\<rparr>)
     \<lparr>activities = two_clubs,
      disk = new_disk\<lparr>files := no_files(ACTIVITIES_FILE \<mapsto> dumps json two_clubs)\<rparr>\<rparr>)) = default_activities \<and>
   default_activities \<noteq> two_clubs"
  using two_clubs_on_disk two_clubs_store default_activities_differ
  by (simp add: reload_activities_def load_unread_cases default_activities_len)

end
